theory Spec2Isabelle
  imports Main "HOL-Library.Word" "HOL-Library.Sublist" "HOL-Library.AList"
    "HOL-Library.Char_ord" "HOL-Library.List_Lexorder"
begin


unbundle bit_operations_syntax

section \<open>Errors\<close>

text \<open>
  Go errors are values. \<open>Errorf fmt args\<close> stands for \<^verbatim>\<open>fmt.Errorf(fmt, args...)\<close>:
  the format string and its arguments are kept apart, so that what an error names and
  what it wraps can be read off. An argument printed with \<^verbatim>\<open>%w\<close> is \<open>W\<close> (it
  is wrapped and found by \<^verbatim>\<open>errors.Is\<close>), one printed with \<^verbatim>\<open>%v\<close> is \<open>V\<close>.
  The other constructors are the errors of the external collaborators.
\<close>

type_synonym byte = "8 word"

datatype arg =
    S string
  | Q "string list"
  | C char
  | V error
  | W error
and error =
    Errorf string "arg list"
  | ErrObjectNotExist
  | GoogleAPIError nat
  | Errno string
  | Failure string

fun errors_Is :: "error \<Rightarrow> error \<Rightarrow> bool"
and arg_Is :: "arg \<Rightarrow> error \<Rightarrow> bool"
and args_Is :: "arg list \<Rightarrow> error \<Rightarrow> bool" where
  "errors_Is (Errorf f as) t = (Errorf f as = t \<or> args_Is as t)"
| "errors_Is ErrObjectNotExist t = (ErrObjectNotExist = t)"
| "errors_Is (GoogleAPIError n) t = (GoogleAPIError n = t)"
| "errors_Is (Errno s) t = (Errno s = t)"
| "errors_Is (Failure s) t = (Failure s = t)"
| "arg_Is (W e) t = errors_Is e t"
| "arg_Is (S s) t = False"
| "arg_Is (Q ss) t = False"
| "arg_Is (C c) t = False"
| "arg_Is (V e) t = False"
| "args_Is [] t = False"
| "args_Is (a # as) t = (arg_Is a t \<or> args_Is as t)"

section \<open>Content hasher\<close>

text \<open>
  \<^verbatim>\<open>HashFiles\<close> only reads. What \<^verbatim>\<open>os.Open\<close> returns for a name is a parameter:
  an error, or an open file whose \<^verbatim>\<open>Stat\<close>, read and \<^verbatim>\<open>Close\<close> results are
  given. A read delivers some bytes and then ends with end-of-file (\<open>None\<close>) or an
  error.
\<close>

record OpenFile =
  Stat :: "error + bool"
  Read :: "byte list \<times> error option"
  Close :: "error option"

text \<open>
  The hash is \<^verbatim>\<open>golang.org/x/crypto/blake2b\<close>, an external library. A
  \<^verbatim>\<open>hash.Hash\<close> is modelled by the bytes written to it so far; the digest
  function of the unkeyed hash of the requested size is the parameter \<open>digest\<close>.
  \<^verbatim>\<open>blake2b.New\<close> refuses a size outside 1..64 and a key longer than 64 bytes.
\<close>

definition blake2b_New :: "nat \<Rightarrow> byte list \<Rightarrow> error + byte list" where
  "blake2b_New hashSize key =
     (if hashSize < 1 \<or> 64 < hashSize then Inl (Failure ''blake2b: invalid hash size'')
      else if 64 < length key then Inl (Failure ''blake2b: invalid key size'')
      else Inr [])"

definition hex_digit :: "nat \<Rightarrow> char" where
  "hex_digit n = ''0123456789abcdef'' ! (n mod 16)"

fun Sprintf_x :: "byte list \<Rightarrow> string" where
  "Sprintf_x [] = []"
| "Sprintf_x (b # bs) = hex_digit (unat b div 16) # hex_digit (unat b mod 16) # Sprintf_x bs"

text \<open>
  The deferred close of \<^verbatim>\<open>hashOne\<close>: it runs on every path after the file was
  opened and combines a close error with the error already pending.
\<close>

definition hashOne_close :: "OpenFile \<Rightarrow> error option \<Rightarrow> error option" where
  "hashOne_close f retErr =
     (case Close f of
        None \<Rightarrow> retErr
      | Some cerr \<Rightarrow>
          (case retErr of
             Some e \<Rightarrow> Some (Errorf ''%v: failed to close file: %w'' [V e, W cerr])
           | None \<Rightarrow> Some (Errorf ''failed to close file: %w'' [W cerr])))"

definition hashOne :: "(string \<Rightarrow> error + OpenFile) \<Rightarrow> string \<Rightarrow> byte list \<Rightarrow> error option \<times> byte list" where
  "hashOne os_Open name h =
     (case os_Open name of
        Inl err \<Rightarrow> (Some (Errorf ''failed to open file: %w'' [W err]), h)
      | Inr f \<Rightarrow>
          (case Stat f of
             Inl err \<Rightarrow> (hashOne_close f (Some (Errorf ''failed to stat file: %w'' [W err])), h)
           | Inr isDir \<Rightarrow>
               if isDir then (hashOne_close f None, h)
               else (case Read f of
                       (bytes, Some err) \<Rightarrow>
                         (hashOne_close f (Some (Errorf ''failed to hash: %w'' [W err])), h @ bytes)
                     | (bytes, None) \<Rightarrow> (hashOne_close f None, h @ bytes))))"

fun hashAll :: "(string \<Rightarrow> error + OpenFile) \<Rightarrow> string list \<Rightarrow> byte list \<Rightarrow> error + byte list" where
  "hashAll os_Open [] h = Inr h"
| "hashAll os_Open (name # files) h =
     (case hashOne os_Open name h of
        (Some err, h') \<Rightarrow> Inl (Errorf ''failed to hash %s: %w'' [S name, W err])
      | (None, h') \<Rightarrow> hashAll os_Open files h')"

definition HashFiles :: "(byte list \<Rightarrow> byte list) \<Rightarrow> (string \<Rightarrow> error + OpenFile) \<Rightarrow> string list \<Rightarrow> error + string" where
  "HashFiles digest os_Open files =
     (case blake2b_New 16 [] of
        Inl err \<Rightarrow> Inl (Errorf ''failed to create hash: %w'' [W err])
      | Inr h \<Rightarrow>
          (case hashAll os_Open files h of
             Inl err \<Rightarrow> Inl err
           | Inr h' \<Rightarrow> Inr (Sprintf_x (digest h'))))"

definition HashGlob :: "(byte list \<Rightarrow> byte list) \<Rightarrow> (string \<Rightarrow> error + OpenFile) \<Rightarrow> (string \<Rightarrow> error + string list) \<Rightarrow> string \<Rightarrow> error + string" where
  "HashGlob digest os_Open filepath_Glob pattern =
     (case filepath_Glob pattern of
        Inl err \<Rightarrow> Inl (Errorf ''failed to glob: %w'' [W err])
      | Inr matches \<Rightarrow> HashFiles digest os_Open matches)"

text \<open>
  The content of a path, as the properties below use it: the bytes of a non-directory entry, and
  nothing for a directory.
\<close>

definition readable :: "(string \<Rightarrow> error + OpenFile) \<Rightarrow> string \<Rightarrow> bool" where
  "readable os_Open name =
     (case os_Open name of
        Inl err \<Rightarrow> False
      | Inr f \<Rightarrow>
          (case Stat f of
             Inl err \<Rightarrow> False
           | Inr isDir \<Rightarrow> Close f = None \<and> (isDir \<or> snd (Read f) = None)))"

definition content_of :: "(string \<Rightarrow> error + OpenFile) \<Rightarrow> string \<Rightarrow> byte list" where
  "content_of os_Open name =
     (case os_Open name of
        Inl err \<Rightarrow> []
      | Inr f \<Rightarrow> (case Stat f of Inr False \<Rightarrow> fst (Read f) | _ \<Rightarrow> []))"

section \<open>Paths\<close>

text \<open>
  Paths are strings with \<open>/\<close> as the separator. \<open>Clean\<close>, \<open>filepath_Join\<close> and
  \<open>filepath_Dir\<close> follow Go's \<^verbatim>\<open>path/filepath\<close> on such platforms: \<open>Clean\<close>
  drops empty and \<open>.\<close> elements, lets a \<open>..\<close> remove the element before it, drops
  a \<open>..\<close> at the root, and returns \<open>.\<close> for an empty result.
\<close>

fun strings_Split :: "string \<Rightarrow> string list" where
  "strings_Split [] = [[]]"
| "strings_Split (c # cs) =
     (if c = CHR ''/'' then [] # strings_Split cs
      else (case strings_Split cs of
              [] \<Rightarrow> [[c]]
            | e # es \<Rightarrow> (c # e) # es))"

fun strings_Join :: "string list \<Rightarrow> string" where
  "strings_Join [] = []"
| "strings_Join [e] = e"
| "strings_Join (e # es) = e @ ''/'' @ strings_Join es"

fun clean_elems :: "bool \<Rightarrow> string list \<Rightarrow> string list \<Rightarrow> string list" where
  "clean_elems rooted out [] = rev out"
| "clean_elems rooted out (e # es) =
     (if e = [] \<or> e = ''.'' then clean_elems rooted out es
      else if e = ''..'' then
        (case out of
           [] \<Rightarrow> if rooted then clean_elems rooted out es else clean_elems rooted (e # out) es
         | prev # below \<Rightarrow>
             if prev = ''..'' then clean_elems rooted (e # out) es
             else clean_elems rooted below es)
      else clean_elems rooted (e # out) es)"

definition Clean :: "string \<Rightarrow> string" where
  "Clean path =
     (case path of
        [] \<Rightarrow> ''.''
      | c # cs \<Rightarrow>
          let rooted = (c = CHR ''/'');
              out = clean_elems rooted [] (strings_Split path)
          in if rooted then CHR ''/'' # strings_Join out
             else if out = [] then ''.''
             else strings_Join out)"

definition filepath_Join :: "string list \<Rightarrow> string" where
  "filepath_Join elem =
     (case dropWhile (\<lambda>e. e = []) elem of
        [] \<Rightarrow> []
      | es \<Rightarrow> Clean (strings_Join es))"

definition filepath_Dir :: "string \<Rightarrow> string" where
  "filepath_Dir path = Clean (rev (dropWhile (\<lambda>c. c \<noteq> CHR ''/'') (rev path)))"

text \<open>
  \<^verbatim>\<open>filepath.Base\<close> strips trailing separators and returns what follows the last
  separator left: \<open>.\<close> for the empty path, \<open>/\<close> for a path of separators only.
  \<^verbatim>\<open>strings.TrimPrefix\<close> removes a prefix that is there.
\<close>

definition filepath_Base :: "string \<Rightarrow> string" where
  "filepath_Base path =
     (if path = [] then ''.''
      else let stripped = rev (dropWhile (\<lambda>c. c = CHR ''/'') (rev path));
               l = rev (takeWhile (\<lambda>c. c \<noteq> CHR ''/'') (rev stripped))
           in if l = [] then ''/'' else l)"

definition strings_TrimPrefix :: "string \<Rightarrow> string \<Rightarrow> string" where
  "strings_TrimPrefix s pre = (if prefix pre s then drop (length pre) s else s)"

text \<open>
  What the operating system walks when it resolves a path: the elements of the path
  without the empty ones and the \<open>.\<close> ones. A \<open>..\<close> stays, it is resolved against
  the directory reached so far. A path is rooted when it starts with the separator.
\<close>

definition elements :: "string \<Rightarrow> string list" where
  "elements path = filter (\<lambda>e. e \<noteq> [] \<and> e \<noteq> ''.'') (strings_Split path)"

definition rooted :: "string \<Rightarrow> bool" where
  "rooted path = (case path of [] \<Rightarrow> False | c # cs \<Rightarrow> c = CHR ''/'')"

section \<open>Archive entries\<close>

text \<open>
  The type flags of \<^verbatim>\<open>archive/tar\<close> are bytes.
\<close>

definition TypeReg :: char where "TypeReg = CHR ''0''"
definition TypeRegA :: char where "TypeRegA = CHR 0x00"
definition TypeLink :: char where "TypeLink = CHR ''1''"
definition TypeSymlink :: char where "TypeSymlink = CHR ''2''"
definition TypeChar :: char where "TypeChar = CHR ''3''"
definition TypeBlock :: char where "TypeBlock = CHR ''4''"
definition TypeDir :: char where "TypeDir = CHR ''5''"
definition TypeFifo :: char where "TypeFifo = CHR ''6''"
definition TypeXGlobalHeader :: char where "TypeXGlobalHeader = CHR ''g''"

record Header =
  Typeflag :: char
  Name :: string
  Linkname :: string

text \<open>
  An \<^verbatim>\<open>archiver.File\<close>: its name in the archive, its header (\<open>None\<close> when the
  header is not a \<^verbatim>\<open>*tar.Header\<close>), its mode, and what \<^verbatim>\<open>Open\<close> followed by
  reading to the end delivers. The tar and zstd encoding is the external codec's: an
  archive is modelled by the sequence of entries the codec decodes from it.
\<close>

record File =
  NameInArchive :: string
  Header :: "Header option"
  Mode :: "32 word"
  Open :: "error + byte list"

section \<open>The world: object store, file system, calls\<close>

record ObjectAttrs =
  ObjectName :: string
  Updated :: int
  ContentType :: string
  CacheControl :: string

type_synonym object = "ObjectAttrs \<times> File list"

text \<open>
  A node of the file system: a directory or a regular file with its nine permission
  bits (other mode bits are not tracked), or a symbolic link with its target. The file
  system is the list of its nodes, each under the names that lead to it from the root
  directory through directories only; the root itself is not listed.
\<close>

datatype node =
    Directory "32 word"
  | Regular "32 word" "byte list"
  | SymbolicLink string

type_synonym filesystem = "(string list \<times> node) list"

text \<open>
  Every call to an external collaborator is recorded in \<open>calls\<close>, in the order the
  program makes them.
\<close>

datatype call =
    CallAttrs string string
  | CallNewWriter string string
  | CallFilesFromDisk string
  | CallArchive string string
  | CallWriterClose string string
  | CallObjects string string
  | CallNewReader string string
  | CallReaderClose string string
  | CallMkdirAll string
  | CallCreate string
  | CallChmod string "32 word"
  | CallOpen string
  | CallCopy string
  | CallClose string
  | CallSymlink string string
  | CallLink string string

text \<open>
  \<open>bucket_objects b\<close> lists the objects of bucket \<open>b\<close> in the order the store
  enumerates them. \<open>racing b\<close> are the objects that other processes commit to \<open>b\<close>
  after this process has probed the store and before it commits its own write.
  \<open>disk\<close> is the file system, \<open>files\<close> the lookup of a node in it.
  \<open>fault c\<close> is the failure, if any, that the environment (network, permissions,
  disk) inflicts on call \<open>c\<close>.
\<close>

record world =
  bucket_objects :: "string \<Rightarrow> object list"
  racing :: "string \<Rightarrow> object list"
  clock :: int
  disk :: filesystem
  umask :: "32 word"
  GOOS :: string
  fault :: "call \<Rightarrow> error option"
  calls :: "call list"

definition files :: "world \<Rightarrow> string list \<rightharpoonup> node" where
  "files w = map_of (disk w)"

definition record_call :: "world \<Rightarrow> call \<Rightarrow> world" where
  "record_call w c = w\<lparr>calls := calls w @ [c]\<rparr>"

section \<open>File system operations\<close>

text \<open>
  File modes are written in decimal: 493 is octal 755, 438 is octal 666, 420 is octal
  644, 511 is octal 777. The root directory always exists. The working directory of the
  process is taken to be the root.
\<close>

definition node_at :: "(string list \<rightharpoonup> node) \<Rightarrow> string list \<Rightarrow> node option" where
  "node_at fs p = (if p = [] then Some (Directory 493) else fs p)"

text \<open>
  Path resolution. \<open>locate fs n follow cur els\<close> walks the elements \<open>els\<close> from the
  directory at \<open>cur\<close> and returns the place the path names. On the way every element
  must be a directory or a symbolic link to one; a link is followed by resolving its
  target, from the root when the target is rooted and from the directory of the link
  otherwise. The last element may be missing (the place is then where it would be
  created); when it is a link it is followed only if \<open>follow\<close> is set. \<open>n\<close> bounds
  how deep links may lead to links; beyond it the resolution fails with
  \<^verbatim>\<open>ELOOP\<close>, the error of the operating system for too many links.
\<close>

fun locate :: "(string list \<rightharpoonup> node) \<Rightarrow> nat \<Rightarrow> bool \<Rightarrow> string list \<Rightarrow> string list \<Rightarrow> error + string list" where
  "locate fs n follow cur [] = Inr cur"
| "locate fs n follow cur (c # rest) =
     (if c = ''..'' then locate fs n follow (butlast cur) rest
      else case fs (cur @ [c]) of
             None \<Rightarrow> if rest = [] then Inr (cur @ [c]) else Inl (Errno ''ENOENT'')
           | Some (Directory m) \<Rightarrow> locate fs n follow (cur @ [c]) rest
           | Some (Regular m bs) \<Rightarrow> if rest = [] then Inr (cur @ [c]) else Inl (Errno ''ENOTDIR'')
           | Some (SymbolicLink t) \<Rightarrow>
               if rest = [] \<and> \<not> follow then Inr (cur @ [c])
               else (case n of
                       0 \<Rightarrow> Inl (Errno ''ELOOP'')
                     | Suc k \<Rightarrow>
                         (case locate fs k True (if rooted t then [] else cur) (elements t) of
                            Inl e \<Rightarrow> Inl e
                          | Inr p \<Rightarrow>
                              if rest = [] then Inr p
                              else (case node_at fs p of
                                      None \<Rightarrow> Inl (Errno ''ENOENT'')
                                    | Some (Directory m) \<Rightarrow> locate fs n follow p rest
                                    | Some other \<Rightarrow> Inl (Errno ''ENOTDIR'')))))"

definition link_limit :: nat where
  "link_limit = 40"

text \<open>
  \<^verbatim>\<open>os.Stat\<close> (\<open>follow\<close> set) and \<^verbatim>\<open>os.Lstat\<close> of the path with the given
  elements: the place and the node there.
\<close>

definition stat_at :: "(string list \<rightharpoonup> node) \<Rightarrow> bool \<Rightarrow> string list \<Rightarrow> error + string list \<times> node" where
  "stat_at fs follow els =
     (case locate fs link_limit follow [] els of
        Inl e \<Rightarrow> Inl e
      | Inr p \<Rightarrow> (case node_at fs p of None \<Rightarrow> Inl (Errno ''ENOENT'') | Some n \<Rightarrow> Inr (p, n)))"

definition os_Stat :: "(string list \<rightharpoonup> node) \<Rightarrow> string \<Rightarrow> error + string list \<times> node" where
  "os_Stat fs path = (if path = [] then Inl (Errno ''ENOENT'') else stat_at fs True (elements path))"

definition os_Lstat :: "(string list \<rightharpoonup> node) \<Rightarrow> string \<Rightarrow> error + string list \<times> node" where
  "os_Lstat fs path = (if path = [] then Inl (Errno ''ENOENT'') else stat_at fs False (elements path))"

text \<open>
  \<^verbatim>\<open>os.Mkdir\<close> makes one directory; it fails when the name is taken, also by a
  symbolic link.
\<close>

definition Mkdir_elems :: "filesystem \<Rightarrow> 32 word \<Rightarrow> string list \<Rightarrow> error + filesystem" where
  "Mkdir_elems fs perm els =
     (case locate (map_of fs) link_limit False [] els of
        Inl e \<Rightarrow> Inl e
      | Inr p \<Rightarrow>
          (case node_at (map_of fs) p of
             None \<Rightarrow> Inr (AList.update p (Directory perm) fs)
           | Some n \<Rightarrow> Inl (Errno ''EEXIST'')))"

text \<open>
  \<^verbatim>\<open>os.MkdirAll\<close>, on the elements of the path, last element first. If the path
  names a directory there is nothing to do, if it names something else that is an
  error. Otherwise the parent is made in the same way, then the directory itself; when
  that fails and the path is a directory all the same, it is no error.
\<close>

fun MkdirAll_elems :: "filesystem \<Rightarrow> 32 word \<Rightarrow> string list \<Rightarrow> error option \<times> filesystem" where
  "MkdirAll_elems fs perm [] = (None, fs)"
| "MkdirAll_elems fs perm (c # up) =
     (case stat_at (map_of fs) True (rev (c # up)) of
        Inr (p, n) \<Rightarrow>
          (case n of Directory m \<Rightarrow> (None, fs) | other \<Rightarrow> (Some (Errno ''ENOTDIR''), fs))
      | Inl e \<Rightarrow>
          (case MkdirAll_elems fs perm up of
             (Some err, fs1) \<Rightarrow> (Some err, fs1)
           | (None, fs1) \<Rightarrow>
               (case Mkdir_elems fs1 perm (rev (c # up)) of
                  Inr fs2 \<Rightarrow> (None, fs2)
                | Inl err \<Rightarrow>
                    (case stat_at (map_of fs1) False (rev (c # up)) of
                       Inr (p, Directory m) \<Rightarrow> (None, fs1)
                     | other \<Rightarrow> (Some err, fs1)))))"

definition os_MkdirAll :: "world \<Rightarrow> string \<Rightarrow> 32 word \<Rightarrow> error option \<times> world" where
  "os_MkdirAll w path perm =
     (let w' = record_call w (CallMkdirAll path)
      in case fault w (CallMkdirAll path) of
           Some e \<Rightarrow> (Some e, w')
         | None \<Rightarrow>
             if path = [] then (Some (Errno ''ENOENT''), w')
             else (case MkdirAll_elems (disk w) (perm AND NOT (umask w)) (rev (elements path)) of
                     (r, fs) \<Rightarrow> (r, w'\<lparr>disk := fs\<rparr>)))"

text \<open>
  An open file: the name it was opened under and the place of the node it refers to.
  \<^verbatim>\<open>os.Create\<close> follows symbolic links; it creates the file with mode 0666 before
  umask, or truncates an existing regular file.
\<close>

record os_File =
  file_name :: string
  file_node :: "string list"

definition os_Create :: "world \<Rightarrow> string \<Rightarrow> (error + os_File) \<times> world" where
  "os_Create w path =
     (let w' = record_call w (CallCreate path)
      in case fault w (CallCreate path) of
           Some e \<Rightarrow> (Inl e, w')
         | None \<Rightarrow>
             if path = [] then (Inl (Errno ''ENOENT''), w')
             else (case locate (files w) link_limit True [] (elements path) of
                     Inl e \<Rightarrow> (Inl e, w')
                   | Inr p \<Rightarrow>
                       (case node_at (files w) p of
                          None \<Rightarrow>
                            (Inr \<lparr>file_name = path, file_node = p\<rparr>,
                             w'\<lparr>disk := AList.update p (Regular (438 AND NOT (umask w)) []) (disk w)\<rparr>)
                        | Some (Regular m bs) \<Rightarrow>
                            (Inr \<lparr>file_name = path, file_node = p\<rparr>,
                             w'\<lparr>disk := AList.update p (Regular m []) (disk w)\<rparr>)
                        | Some (Directory m) \<Rightarrow> (Inl (Errno ''EISDIR''), w')
                        | Some (SymbolicLink t) \<Rightarrow> (Inl (Errno ''ELOOP''), w'))))"

text \<open>
  \<^verbatim>\<open>File.Chmod\<close> changes the permission bits of the open file to those of the
  mode; the file type bits of a \<^verbatim>\<open>FileMode\<close> are not passed on. On windows only
  the owner-writable bit (octal 200, decimal 128) is used: it decides whether the file
  is read-only (octal 444, decimal 292) or not.
\<close>

definition chmod_bits :: "string \<Rightarrow> 32 word \<Rightarrow> 32 word" where
  "chmod_bits goos mode =
     (if goos = ''windows'' then (if mode AND 128 = 0 then 292 else 438) else mode AND 511)"

definition File_Chmod :: "world \<Rightarrow> os_File \<Rightarrow> 32 word \<Rightarrow> error option \<times> world" where
  "File_Chmod w out mode =
     (let w' = record_call w (CallChmod (file_name out) mode)
      in case fault w (CallChmod (file_name out) mode) of
           Some e \<Rightarrow> (Some e, w')
         | None \<Rightarrow>
             (case files w (file_node out) of
                Some (Regular m bs) \<Rightarrow>
                  (None, w'\<lparr>disk := AList.update (file_node out) (Regular (chmod_bits (GOOS w) mode) bs) (disk w)\<rparr>)
              | other \<Rightarrow> (Some (Errno ''EBADF''), w')))"

definition File_Open :: "world \<Rightarrow> File \<Rightarrow> (error + byte list) \<times> world" where
  "File_Open w f = (Open f, record_call w (CallOpen (NameInArchive f)))"

definition io_Copy :: "world \<Rightarrow> os_File \<Rightarrow> byte list \<Rightarrow> error option \<times> world" where
  "io_Copy w out bytes =
     (let w' = record_call w (CallCopy (file_name out))
      in case fault w (CallCopy (file_name out)) of
           Some e \<Rightarrow> (Some e, w')
         | None \<Rightarrow>
             (case files w (file_node out) of
                Some (Regular m bs) \<Rightarrow>
                  (None, w'\<lparr>disk := AList.update (file_node out) (Regular m (bs @ bytes)) (disk w)\<rparr>)
              | other \<Rightarrow> (Some (Errno ''EBADF''), w')))"

definition File_Close :: "world \<Rightarrow> os_File \<Rightarrow> world" where
  "File_Close w out = record_call w (CallClose (file_name out))"

text \<open>
  \<^verbatim>\<open>os.Symlink\<close> does not follow a link at the new name, and does not look at the
  target.
\<close>

definition os_Symlink :: "world \<Rightarrow> string \<Rightarrow> string \<Rightarrow> error option \<times> world" where
  "os_Symlink w oldname newname =
     (let w' = record_call w (CallSymlink oldname newname)
      in case fault w (CallSymlink oldname newname) of
           Some e \<Rightarrow> (Some e, w')
         | None \<Rightarrow>
             if oldname = [] \<or> newname = [] then (Some (Errno ''ENOENT''), w')
             else (case locate (files w) link_limit False [] (elements newname) of
                     Inl e \<Rightarrow> (Some e, w')
                   | Inr p \<Rightarrow>
                       if node_at (files w) p \<noteq> None then (Some (Errno ''EEXIST''), w')
                       else (None, w'\<lparr>disk := AList.update p (SymbolicLink oldname) (disk w)\<rparr>)))"

text \<open>
  \<^verbatim>\<open>os.Link\<close> gives the existing file a second name; it follows a link at neither
  name. The two names are modelled as two equal entries; nothing in this program writes
  through a link afterwards.
\<close>

definition os_Link :: "world \<Rightarrow> string \<Rightarrow> string \<Rightarrow> error option \<times> world" where
  "os_Link w oldname newname =
     (let w' = record_call w (CallLink oldname newname)
      in case fault w (CallLink oldname newname) of
           Some e \<Rightarrow> (Some e, w')
         | None \<Rightarrow>
             (case os_Lstat (files w) oldname of
                Inl e \<Rightarrow> (Some e, w')
              | Inr (po, Directory m) \<Rightarrow> (Some (Errno ''EPERM''), w')
              | Inr (po, n) \<Rightarrow>
                  if newname = [] then (Some (Errno ''ENOENT''), w')
                  else (case locate (files w) link_limit False [] (elements newname) of
                          Inl e \<Rightarrow> (Some e, w')
                        | Inr p \<Rightarrow>
                            if node_at (files w) p \<noteq> None then (Some (Errno ''EEXIST''), w')
                            else (None, w'\<lparr>disk := AList.update p n (disk w)\<rparr>))))"

section \<open>Extraction: the per-entry handler of Restore\<close>

text \<open>
  The handler is the closure that \<^verbatim>\<open>Restore\<close> passes to the archive library.
  Each case of its switch on the type flag is a definition of its own; \<open>make_parent\<close>
  is the \<^verbatim>\<open>os.MkdirAll(filepath.Dir(fpath), 0755)\<close> that three of the cases begin
  with.
\<close>

definition make_parent :: "world \<Rightarrow> string \<Rightarrow> error option \<times> world" where
  "make_parent w fpath =
     (case os_MkdirAll w (filepath_Dir fpath) 493 of
        (Some err, w1) \<Rightarrow>
          (Some (Errorf ''failed to make directory %s: %w'' [S (filepath_Dir fpath), W err]), w1)
      | (None, w1) \<Rightarrow> (None, w1))"

definition handle_dir :: "world \<Rightarrow> string \<Rightarrow> error option \<times> world" where
  "handle_dir w fpath =
     (case os_MkdirAll w fpath 493 of
        (Some err, w1) \<Rightarrow> (Some (Errorf ''failed to make directory %s: %w'' [S fpath, W err]), w1)
      | (None, w1) \<Rightarrow> (None, w1))"

text \<open>
  The regular-file case. \<^verbatim>\<open>defer out.Close()\<close> runs on every return after the
  file was created. \<open>copy_content\<close> is the part after the mode change: open the
  entry, copy it into the file.
\<close>

definition copy_content :: "world \<Rightarrow> string \<Rightarrow> os_File \<Rightarrow> File \<Rightarrow> error option \<times> world" where
  "copy_content w fpath out f =
     (case File_Open w f of
        (Inl err, w4) \<Rightarrow> (Some (Errorf ''%s: opening file: %v'' [S fpath, V err]), File_Close w4 out)
      | (Inr bytes, w4) \<Rightarrow>
          (case io_Copy w4 out bytes of
             (Some err, w5) \<Rightarrow> (Some (Errorf ''%s: writing file: %v'' [S fpath, V err]), File_Close w5 out)
           | (None, w5) \<Rightarrow> (None, File_Close w5 out)))"

definition handle_reg :: "world \<Rightarrow> string \<Rightarrow> File \<Rightarrow> error option \<times> world" where
  "handle_reg w fpath f =
     (case make_parent w fpath of
        (Some err, w1) \<Rightarrow> (Some err, w1)
      | (None, w1) \<Rightarrow>
          (case os_Create w1 fpath of
             (Inl err, w2) \<Rightarrow> (Some (Errorf ''%s: creating new file: %v'' [S fpath, V err]), w2)
           | (Inr out, w2) \<Rightarrow>
               (case File_Chmod w2 out (Mode f) of
                  (Some err, w3) \<Rightarrow>
                    if GOOS w3 \<noteq> ''windows''
                    then (Some (Errorf ''%s: changing file mode: %v'' [S fpath, V err]), File_Close w3 out)
                    else copy_content w3 fpath out f
                | (None, w3) \<Rightarrow> copy_content w3 fpath out f)))"

definition handle_symlink :: "world \<Rightarrow> string \<Rightarrow> Header \<Rightarrow> error option \<times> world" where
  "handle_symlink w fpath hdr =
     (case make_parent w fpath of
        (Some err, w1) \<Rightarrow> (Some err, w1)
      | (None, w1) \<Rightarrow>
          (case os_Symlink w1 (Linkname hdr) fpath of
             (Some err, w2) \<Rightarrow> (Some (Errorf ''%s: making symbolic link for: %v'' [S fpath, V err]), w2)
           | (None, w2) \<Rightarrow> (None, w2)))"

definition handle_link :: "world \<Rightarrow> string \<Rightarrow> Header \<Rightarrow> error option \<times> world" where
  "handle_link w fpath hdr =
     (case make_parent w fpath of
        (Some err, w1) \<Rightarrow> (Some err, w1)
      | (None, w1) \<Rightarrow>
          (case os_Link w1 (filepath_Join [fpath, Linkname hdr]) fpath of
             (Some err, w2) \<Rightarrow> (Some (Errorf ''%s: making symbolic link for: %v'' [S fpath, V err]), w2)
           | (None, w2) \<Rightarrow> (None, w2)))"

definition handler :: "string \<Rightarrow> world \<Rightarrow> File \<Rightarrow> error option \<times> world" where
  "handler dir w f =
     (case Header f of
        None \<Rightarrow> (None, w)
      | Some hdr \<Rightarrow>
          let fpath = filepath_Join [dir, NameInArchive f]
          in if Typeflag hdr = TypeDir then handle_dir w fpath
             else if Typeflag hdr \<in> {TypeReg, TypeRegA, TypeChar, TypeBlock, TypeFifo}
               then handle_reg w fpath f
             else if Typeflag hdr = TypeSymlink then handle_symlink w fpath hdr
             else if Typeflag hdr = TypeLink then handle_link w fpath hdr
             else if Typeflag hdr = TypeXGlobalHeader then (None, w)
             else (Some (Errorf ''%s: unknown type flag: %c'' [S (Name hdr), C (Typeflag hdr)]), w))"

text \<open>
  The archive library's \<^verbatim>\<open>Extract\<close> calls the handler on each entry in archive
  order and stops at the first entry whose handler fails, returning that failure.
\<close>

fun Extract :: "(world \<Rightarrow> File \<Rightarrow> error option \<times> world) \<Rightarrow> world \<Rightarrow> File list \<Rightarrow> error option \<times> world" where
  "Extract h w [] = (None, w)"
| "Extract h w (f # fs) =
     (case h w f of
        (Some err, w') \<Rightarrow> (Some (Errorf ''handling file: %s: %w'' [S (NameInArchive f), W err]), w')
      | (None, w') \<Rightarrow> Extract h w' fs)"

section \<open>The walk of the archive library\<close>

text \<open>
  \<^verbatim>\<open>archiver.FilesFromDisk(nil, map[string]string{dir: ""})\<close> walks the directory
  with \<^verbatim>\<open>filepath.WalkDir\<close>: the root first, as \<^verbatim>\<open>Lstat\<close> finds it, then what is
  below it, every directory before its content and the content in the order of the
  names; symbolic links are listed, not followed. \<open>entries_below fs R\<close> lists what
  is below the place \<open>R\<close>, under the names that lead there from \<open>R\<close>, in that
  order. Each entry of the walk comes with its name on disk, the root joined with the
  names that lead to it. A root that cannot be found gives no entry, and no error
  either: the library drops the error of the walk.
\<close>

definition entries_below :: "filesystem \<Rightarrow> string list \<Rightarrow> (string list \<times> node) list" where
  "entries_below fs R =
     sort_key fst (map (\<lambda>(p, n). (drop (length R) p, n)) (filter (\<lambda>(p, n). strict_prefix R p) fs))"

definition walk :: "filesystem \<Rightarrow> string \<Rightarrow> (string \<times> node) list" where
  "walk fs root =
     (case os_Lstat (map_of fs) root of
        Inl e \<Rightarrow> []
      | Inr (R, n) \<Rightarrow>
          (case n of
             Directory m \<Rightarrow>
               (root, n) #
               map (\<lambda>(q, n'). (filepath_Join [root, strings_Join q], n')) (entries_below fs R)
           | other \<Rightarrow> [(root, n)]))"

text \<open>
  The name of an entry in the archive. With the empty name that \<^verbatim>\<open>Save\<close> asks
  for, the root of the archive is the base name of the directory on disk, or nothing
  when the directory is given with a trailing separator; the name on disk without the
  root on disk is joined to it.
\<close>

definition nameOnDiskToNameInArchive :: "string \<Rightarrow> string \<Rightarrow> string" where
  "nameOnDiskToNameInArchive nameOnDisk rootOnDisk =
     (let rootInArchive = (if suffix ''/'' rootOnDisk then [] else filepath_Base rootOnDisk)
      in filepath_Join [rootInArchive, strings_TrimPrefix nameOnDisk rootOnDisk])"

text \<open>
  The entry of a node, as it comes out of the archive again: the tar header that the
  archive step derives from the file information carries the type and the link
  target, the mode is the permission bits with the type bit of a \<^verbatim>\<open>FileMode\<close>
  (\<^verbatim>\<open>ModeDir\<close> is bit 31, \<^verbatim>\<open>ModeSymlink\<close> bit 27), the content is what the file
  holds.
\<close>

definition disk_File :: "string \<Rightarrow> node \<Rightarrow> File" where
  "disk_File name n =
     (case n of
        Directory m \<Rightarrow>
          \<lparr>NameInArchive = name, Header = Some \<lparr>Typeflag = TypeDir, Name = name, Linkname = []\<rparr>,
           Mode = m OR 2147483648, Open = Inr []\<rparr>
      | Regular m bytes \<Rightarrow>
          \<lparr>NameInArchive = name, Header = Some \<lparr>Typeflag = TypeReg, Name = name, Linkname = []\<rparr>,
           Mode = m, Open = Inr bytes\<rparr>
      | SymbolicLink t \<Rightarrow>
          \<lparr>NameInArchive = name, Header = Some \<lparr>Typeflag = TypeSymlink, Name = name, Linkname = t\<rparr>,
           Mode = 511 OR 134217728, Open = Inr []\<rparr>)"

text \<open>
  The entries of the walk. The root directory itself is left out when its name in the
  archive is empty.
\<close>

definition FilesFromDisk :: "filesystem \<Rightarrow> string \<Rightarrow> File list" where
  "FilesFromDisk fs rootOnDisk =
     map (\<lambda>(filename, n). disk_File (nameOnDiskToNameInArchive filename rootOnDisk) n)
         (filter (\<lambda>(filename, n). \<not> ((case n of Directory m \<Rightarrow> True | other \<Rightarrow> False)
                                       \<and> nameOnDiskToNameInArchive filename rootOnDisk = []))
                 (walk fs rootOnDisk))"

section \<open>Object store operations\<close>

definition Object_Attrs :: "world \<Rightarrow> string \<Rightarrow> string \<Rightarrow> ObjectAttrs option \<times> error option \<times> world" where
  "Object_Attrs w bucket key =
     (let w' = record_call w (CallAttrs bucket key)
      in case fault w (CallAttrs bucket key) of
           Some e \<Rightarrow> (None, Some e, w')
         | None \<Rightarrow>
             (case find (\<lambda>ob. ObjectName (fst ob) = key) (bucket_objects w bucket) of
                None \<Rightarrow> (None, Some ErrObjectNotExist, w')
              | Some ob \<Rightarrow> (Some (fst ob), None, w')))"

record Writer =
  writer_bucket :: string
  writer_key :: string
  DoesNotExist :: bool
  ChunkSize :: nat
  writer_ContentType :: string
  writer_CacheControl :: string
  written :: "File list"

text \<open>
  Opening the writer sends nothing. It is the first step after the probe, so this is
  where the objects of racing processes are taken to land in the bucket.
\<close>

definition NewWriter :: "world \<Rightarrow> string \<Rightarrow> string \<Rightarrow> bool \<Rightarrow> Writer \<times> world" where
  "NewWriter w bucket key dne =
     (\<lparr>writer_bucket = bucket, writer_key = key, DoesNotExist = dne, ChunkSize = 0,
       writer_ContentType = [], writer_CacheControl = [], written = []\<rparr>,
      (record_call w (CallNewWriter bucket key))
        \<lparr>bucket_objects := (\<lambda>b. bucket_objects w b @ racing w b), racing := (\<lambda>b. [])\<rparr>)"

definition archiver_FilesFromDisk :: "world \<Rightarrow> string \<Rightarrow> (error + File list) \<times> world" where
  "archiver_FilesFromDisk w dir =
     (let w' = record_call w (CallFilesFromDisk dir)
      in case fault w (CallFilesFromDisk dir) of
           Some e \<Rightarrow> (Inl e, w')
         | None \<Rightarrow> (Inr (FilesFromDisk (disk w) dir), w'))"

definition Archive :: "world \<Rightarrow> Writer \<Rightarrow> File list \<Rightarrow> error option \<times> Writer \<times> world" where
  "Archive w gcsw fs =
     (let c = CallArchive (writer_bucket gcsw) (writer_key gcsw); w' = record_call w c
      in case fault w c of
           Some e \<Rightarrow> (Some e, gcsw, w')
         | None \<Rightarrow> (None, gcsw\<lparr>written := written gcsw @ fs\<rparr>, w'))"

text \<open>
  Closing the writer commits the object. With the \<open>DoesNotExist\<close> condition the store
  rejects the commit with HTTP status 412 when an object of that name exists.
\<close>

definition Writer_Close :: "world \<Rightarrow> Writer \<Rightarrow> error option \<times> world" where
  "Writer_Close w gcsw =
     (let b = writer_bucket gcsw; k = writer_key gcsw;
          w' = record_call w (CallWriterClose b k)
      in case fault w (CallWriterClose b k) of
           Some e \<Rightarrow> (Some e, w')
         | None \<Rightarrow>
             if DoesNotExist gcsw \<and> find (\<lambda>ob. ObjectName (fst ob) = k) (bucket_objects w b) \<noteq> None
             then (Some (GoogleAPIError 412), w')
             else (None,
                   w'\<lparr>bucket_objects := (bucket_objects w)
                        (b := filter (\<lambda>ob. ObjectName (fst ob) \<noteq> k) (bucket_objects w b) @
                              [(\<lparr>ObjectName = k, Updated = clock w,
                                 ContentType = writer_ContentType gcsw,
                                 CacheControl = writer_CacheControl gcsw\<rparr>, written gcsw)]),
                      clock := clock w + 1\<rparr>))"

text \<open>
  A listing yields the objects whose name starts with the prefix, in the store's order,
  and then ends (\<open>None\<close>, which is \<^verbatim>\<open>iterator.Done\<close>) or fails.
\<close>

definition Bucket_Objects :: "world \<Rightarrow> string \<Rightarrow> string \<Rightarrow> ObjectAttrs list \<times> error option \<times> world" where
  "Bucket_Objects w bucket pre =
     (let w' = record_call w (CallObjects bucket pre)
      in case fault w (CallObjects bucket pre) of
           Some e \<Rightarrow> ([], Some e, w')
         | None \<Rightarrow>
             (map fst (filter (\<lambda>ob. prefix pre (ObjectName (fst ob))) (bucket_objects w bucket)), None, w'))"

definition Object_NewReader :: "world \<Rightarrow> string \<Rightarrow> string \<Rightarrow> (error + File list) \<times> world" where
  "Object_NewReader w bucket name =
     (let w' = record_call w (CallNewReader bucket name)
      in case fault w (CallNewReader bucket name) of
           Some e \<Rightarrow> (Inl e, w')
         | None \<Rightarrow>
             (case find (\<lambda>ob. ObjectName (fst ob) = name) (bucket_objects w bucket) of
                None \<Rightarrow> (Inl ErrObjectNotExist, w')
              | Some ob \<Rightarrow> (Inr (snd ob), w')))"

definition Reader_Close :: "world \<Rightarrow> string \<Rightarrow> string \<Rightarrow> error option \<times> world" where
  "Reader_Close w bucket name =
     (fault w (CallReaderClose bucket name), record_call w (CallReaderClose bucket name))"

section \<open>Save\<close>

record SaveRequest =
  Bucket :: string
  Key :: string
  Dir :: string

definition contentType :: string where
  "contentType = ''application/x-zstd-compressed-tar''"

definition cacheControl :: string where
  "cacheControl = ''public,max-age=600''"

text \<open>
  The deferred function of \<^verbatim>\<open>Save\<close>: close the writer and combine a close error
  with the error already pending.
\<close>

definition Save_close :: "world \<Rightarrow> Writer \<Rightarrow> error option \<Rightarrow> error option \<times> world" where
  "Save_close w gcsw retErr =
     (case Writer_Close w gcsw of
        (None, w') \<Rightarrow> (retErr, w')
      | (Some cerr, w') \<Rightarrow>
          (case retErr of
             Some e \<Rightarrow> (Some (Errorf ''%v: failed to close gcs writer: %w'' [V e, W cerr]), w')
           | None \<Rightarrow> (Some (Errorf ''failed to close gcs writer: %w'' [W cerr]), w')))"

text \<open>
  The part of \<^verbatim>\<open>Save\<close> after the probe found nothing: open the conditional
  writer, archive the directory into it, close.
\<close>

definition Save_upload :: "world \<Rightarrow> string \<Rightarrow> string \<Rightarrow> string \<Rightarrow> error option \<times> world" where
  "Save_upload w bucket key dir =
     (case NewWriter w bucket key True of
        (gcsw0, w2) \<Rightarrow>
          let gcsw = gcsw0\<lparr>ChunkSize := 128000000, writer_ContentType := contentType,
                            writer_CacheControl := cacheControl\<rparr>
          in case archiver_FilesFromDisk w2 dir of
               (Inl err, w3) \<Rightarrow> Save_close w3 gcsw (Some err)
             | (Inr fs, w3) \<Rightarrow>
                 (case Archive w3 gcsw fs of
                    (Some err, gcsw', w4) \<Rightarrow> Save_close w4 gcsw' (Some err)
                  | (None, gcsw', w4) \<Rightarrow> Save_close w4 gcsw' None))"

definition Save :: "world \<Rightarrow> SaveRequest option \<Rightarrow> error option \<times> world" where
  "Save w i =
     (case i of
        None \<Rightarrow> (Some (Errorf ''missing cache options'' []), w)
      | Some r \<Rightarrow>
          if Bucket r = [] then (Some (Errorf ''missing bucket'' []), w)
          else if Dir r = [] then (Some (Errorf ''missing directory'' []), w)
          else if Key r = [] then (Some (Errorf ''missing key'' []), w)
          else (case Object_Attrs w (Bucket r) (Key r) of
                  (attrs, Some err, w1) \<Rightarrow>
                    if \<not> errors_Is err ErrObjectNotExist
                    then (Some (Errorf ''failed to check if cached object exists: %w'' [W err]), w1)
                    else if attrs \<noteq> None then (None, w1)
                    else Save_upload w1 (Bucket r) (Key r) (Dir r)
                | (attrs, None, w1) \<Rightarrow>
                    if attrs \<noteq> None then (None, w1)
                    else Save_upload w1 (Bucket r) (Key r) (Dir r)))"

section \<open>Restore\<close>

record RestoreRequest =
  Bucket :: string
  Keys :: "string list"
  Dir :: string

text \<open>
  The inner loop over one listing: the running best is replaced when there is none yet
  or when the new object was updated strictly later.
\<close>

fun scan :: "ObjectAttrs option \<Rightarrow> ObjectAttrs list \<Rightarrow> ObjectAttrs option" where
  "scan match [] = match"
| "scan match (attrs # rest) =
     (case match of
        None \<Rightarrow> scan (Some attrs) rest
      | Some m \<Rightarrow> if Updated attrs > Updated m then scan (Some attrs) rest else scan match rest)"

text \<open>The outer loop over the keys.\<close>

fun search :: "world \<Rightarrow> string \<Rightarrow> ObjectAttrs option \<Rightarrow> string list \<Rightarrow> (error + ObjectAttrs option) \<times> world" where
  "search w bucket match [] = (Inr match, w)"
| "search w bucket match (key # keys) =
     (case Bucket_Objects w bucket key of
        (items, Some err, w') \<Rightarrow> (Inl (Errorf ''failed to list %s: %w'' [S key, W err]), w')
      | (items, None, w') \<Rightarrow> search w' bucket (scan match items) keys)"

definition Restore_close :: "world \<Rightarrow> string \<Rightarrow> string \<Rightarrow> error option \<Rightarrow> error option \<times> world" where
  "Restore_close w bucket name retErr =
     (case Reader_Close w bucket name of
        (None, w') \<Rightarrow> (retErr, w')
      | (Some cerr, w') \<Rightarrow>
          (case retErr of
             Some e \<Rightarrow> (Some (Errorf ''%v: failed to close gcs reader: %w'' [V e, W cerr]), w')
           | None \<Rightarrow> (Some (Errorf ''failed to close gcs reader: %w'' [W cerr]), w')))"

text \<open>
  The part of \<^verbatim>\<open>Restore\<close> after a match was found. The result of
  \<^verbatim>\<open>format.Extract\<close> is not looked at: the source calls it as a statement.
\<close>

definition Restore_match :: "world \<Rightarrow> string \<Rightarrow> string \<Rightarrow> ObjectAttrs \<Rightarrow> error option \<times> world" where
  "Restore_match w bucket dir match =
     (case os_MkdirAll w dir 493 of
        (Some err, w1) \<Rightarrow> (Some (Errorf ''failed to make target directory: %w'' [W err]), w1)
      | (None, w1) \<Rightarrow>
          (case Object_NewReader w1 bucket (ObjectName match) of
             (Inl err, w2) \<Rightarrow> (Some (Errorf ''failed to create object reader: %w'' [W err]), w2)
           | (Inr gcsr, w2) \<Rightarrow>
               (case Extract (handler dir) w2 gcsr of
                  (extractErr, w3) \<Rightarrow> Restore_close w3 bucket (ObjectName match) None)))"

definition Restore :: "world \<Rightarrow> RestoreRequest option \<Rightarrow> error option \<times> world" where
  "Restore w i =
     (case i of
        None \<Rightarrow> (Some (Errorf ''missing cache options'' []), w)
      | Some r \<Rightarrow>
          if Bucket r = [] then (Some (Errorf ''missing bucket'' []), w)
          else if Dir r = [] then (Some (Errorf ''missing directory'' []), w)
          else if length (Keys r) < 1 then (Some (Errorf ''expected at least one cache key'' []), w)
          else (case search w (Bucket r) None (Keys r) of
                  (Inl err, w1) \<Rightarrow> (Some err, w1)
                | (Inr None, w1) \<Rightarrow>
                    (Some (Errorf ''failed to find cached objects among keys %q'' [Q (Keys r)]), w1)
                | (Inr (Some match), w1) \<Rightarrow> Restore_match w1 (Bucket r) (Dir r) match))"

section \<open>Vocabulary of the properties, example inputs\<close>

text \<open>
  The candidates of a restore: for each key in order, the objects of the bucket whose
  name starts with the key, in the store's order. An object that matches several keys
  is met several times.
\<close>

definition candidates :: "world \<Rightarrow> string \<Rightarrow> string list \<Rightarrow> ObjectAttrs list" where
  "candidates w bucket keys =
     concat (map (\<lambda>key. map fst (filter (\<lambda>ob. prefix key (ObjectName (fst ob))) (bucket_objects w bucket))) keys)"

text \<open>
  A small directory listing for the hasher: a directory \<open>d\<close> and two files, and a
  stand-in digest that pads or cuts its input to 16 bytes.
\<close>

definition demo_Open :: "string \<Rightarrow> error + OpenFile" where
  "demo_Open name =
     (if name = ''d'' then Inr \<lparr>Stat = Inr True, Read = ([], Some (Errno ''EISDIR'')), Close = None\<rparr>
      else if name = ''f1'' then Inr \<lparr>Stat = Inr False, Read = ([1, 2], None), Close = None\<rparr>
      else if name = ''f2'' then Inr \<lparr>Stat = Inr False, Read = ([3], None), Close = None\<rparr>
      else Inl (Errno ''ENOENT''))"

definition demo_digest :: "byte list \<Rightarrow> byte list" where
  "demo_digest m = take 16 (m @ replicate 16 0)"

text \<open>
  A world where nothing fails and nothing exists yet, and one whose bucket \<open>b\<close> holds
  four objects.
\<close>

definition quiet_world :: world where
  "quiet_world = \<lparr>bucket_objects = (\<lambda>b. []), racing = (\<lambda>b. []), clock = 100, disk = [],
     umask = 18, GOOS = ''linux'', fault = (\<lambda>c. None), calls = []\<rparr>"

definition attrs_of :: "string \<Rightarrow> int \<Rightarrow> ObjectAttrs" where
  "attrs_of name t = \<lparr>ObjectName = name, Updated = t, ContentType = contentType, CacheControl = cacheControl\<rparr>"

definition listing_world :: world where
  "listing_world = quiet_world\<lparr>bucket_objects := (\<lambda>b. if b = ''b''
      then [(attrs_of ''k-1'' 1, []), (attrs_of ''z'' 9, []), (attrs_of ''k-2'' 5, []), (attrs_of ''k-3'' 5, [])]
      else [])\<rparr>"

text \<open>
  Whether an object is stored under a name, and the request and worlds used as examples
  for \<open>Save\<close>: in \<open>stored_world\<close> the key is taken, in \<open>race_world\<close> another
  process creates it between the probe and the commit of this one.
\<close>

definition object_exists :: "world \<Rightarrow> string \<Rightarrow> string \<Rightarrow> bool" where
  "object_exists w bucket key = (find (\<lambda>ob. ObjectName (fst ob) = key) (bucket_objects w bucket) \<noteq> None)"

definition demo_save :: SaveRequest where
  "demo_save = \<lparr>SaveRequest.Bucket = ''b'', Key = ''k'', Dir = ''/src''\<rparr>"

definition stored_world :: world where
  "stored_world = quiet_world\<lparr>bucket_objects := (\<lambda>b. if b = ''b'' then [(attrs_of ''k'' 7, [])] else [])\<rparr>"

definition race_world :: world where
  "race_world = quiet_world\<lparr>racing := (\<lambda>b. if b = ''b'' then [(attrs_of ''k'' 7, [])] else [])\<rparr>"

text \<open>
  Archive entries used as examples: a regular file \<open>a\<close>, a hard link \<open>b\<close> to it, and
  an entry \<open>weird\<close> whose type flag the extractor does not know.
\<close>

definition entry_a :: File where
  "entry_a = \<lparr>NameInArchive = ''a'',
      Header = Some \<lparr>Typeflag = TypeReg, Name = ''a'', Linkname = []\<rparr>,
      Mode = 420, Open = Inr [1, 2, 3]\<rparr>"

definition entry_b :: File where
  "entry_b = \<lparr>NameInArchive = ''b'',
      Header = Some \<lparr>Typeflag = TypeLink, Name = ''b'', Linkname = ''a''\<rparr>,
      Mode = 420, Open = Inr []\<rparr>"

definition entry_weird :: File where
  "entry_weird = \<lparr>NameInArchive = ''weird'',
      Header = Some \<lparr>Typeflag = CHR ''Z'', Name = ''weird'', Linkname = []\<rparr>,
      Mode = 420, Open = Inr []\<rparr>"

text \<open>
  A world whose bucket \<open>b\<close> holds one object \<open>k\<close>, an archive of \<open>a\<close> and
  \<open>weird\<close>, and the request that restores it into \<open>/out\<close>.
\<close>

definition archive_world :: world where
  "archive_world = quiet_world\<lparr>bucket_objects := (\<lambda>b. if b = ''b''
      then [(attrs_of ''k'' 7, [entry_a, entry_weird])] else [])\<rparr>"

definition demo_restore :: RestoreRequest where
  "demo_restore = \<lparr>RestoreRequest.Bucket = ''b'', Keys = [''k''], Dir = ''/out''\<rparr>"

text \<open>
  A world where changing a file mode fails, the same world on windows (where there is
  no umask), and an executable file \<open>run.sh\<close> of mode 0755.
\<close>

definition chmod_fails_world :: world where
  "chmod_fails_world = quiet_world\<lparr>fault := (\<lambda>c. case c of CallChmod p m \<Rightarrow> Some (Errno ''EPERM'') | _ \<Rightarrow> None)\<rparr>"

definition windows_world :: world where
  "windows_world = chmod_fails_world\<lparr>GOOS := ''windows'', umask := 0\<rparr>"

definition entry_script :: File where
  "entry_script = \<lparr>NameInArchive = ''run.sh'',
      Header = Some \<lparr>Typeflag = TypeReg, Name = ''run.sh'', Linkname = []\<rparr>,
      Mode = 493, Open = Inr [35, 33]\<rparr>"

text \<open>
  An entry that the archive marks as a named pipe: its mode carries the type bit
  \<^verbatim>\<open>ModeNamedPipe\<close> (bit 25) on top of the permission bits 0644. And a world where
  \<open>/out/a\<close> is a symbolic link to \<open>/elsewhere\<close>, which does not exist yet.
\<close>

definition entry_fifo :: File where
  "entry_fifo = \<lparr>NameInArchive = ''p'',
      Header = Some \<lparr>Typeflag = TypeFifo, Name = ''p'', Linkname = []\<rparr>,
      Mode = 33554852, Open = Inr []\<rparr>"

definition linked_world :: world where
  "linked_world = quiet_world\<lparr>disk :=
     [([''out''], Directory 493), ([''out'', ''a''], SymbolicLink ''/elsewhere'')]\<rparr>"

text \<open>
  A world where \<open>/out\<close> is a symbolic link to the directory \<open>/real\<close> and
  \<open>/gone\<close> is a symbolic link to nothing.
\<close>

definition detour_world :: world where
  "detour_world = quiet_world\<lparr>disk :=
     [([''real''], Directory 493), ([''out''], SymbolicLink ''/real''),
      ([''gone''], SymbolicLink ''/nowhere'')]\<rparr>"

text \<open>
  A proper path element is a name: not empty, not \<open>.\<close>, not \<open>..\<close>. The path of
  an archive entry is its name cleaned as a relative path; an entry stays inside the
  directory it is extracted into when that path has no \<open>..\<close>. \<open>resolve\<close> cleans a
  path from the root.
\<close>

definition proper :: "string \<Rightarrow> bool" where
  "proper e = (e \<noteq> [] \<and> e \<noteq> ''.'' \<and> e \<noteq> ''..'')"


definition resolve :: "string \<Rightarrow> string list" where
  "resolve path = clean_elems True [] (strings_Split path)"


definition is_directory :: "File \<Rightarrow> bool" where
  "is_directory f = (case Header f of None \<Rightarrow> False | Some hdr \<Rightarrow> Typeflag hdr = TypeDir)"



text \<open>
  What it means that a node of the file system reproduces an entry: a directory for a
  directory, a link with the recorded target for a symbolic link, a file with the bytes
  of the entry for a regular file, and with the permission bits of its mode where modes
  are kept.
\<close>

definition restored_as :: "bool \<Rightarrow> File \<Rightarrow> node \<Rightarrow> bool" where
  "restored_as mode_kept f n =
     (case Header f of
        None \<Rightarrow> False
      | Some hdr \<Rightarrow>
          (case n of
             Directory m \<Rightarrow> Typeflag hdr = TypeDir
           | SymbolicLink t \<Rightarrow> Typeflag hdr = TypeSymlink \<and> t = Linkname hdr
           | Regular m bytes \<Rightarrow>
               Typeflag hdr \<in> {TypeReg, TypeRegA, TypeChar, TypeBlock, TypeFifo} \<and>
               Open f = Inr bytes \<and> (mode_kept \<longrightarrow> m = Mode f AND 511)))"






definition grown :: "string list \<Rightarrow> (string list \<rightharpoonup> node) \<Rightarrow> (string list \<rightharpoonup> node) \<Rightarrow> bool" where
  "grown D fs fs' = (\<forall>p. \<not> strict_prefix D p \<longrightarrow> fs' p = fs p)"


text \<open>
  Two states of the file system are compatible outside a set of places when every node
  outside it stays what it is, a directory, a regular file or a link with its target,
  and a missing one does not become a link.
\<close>

definition same_kind :: "node option \<Rightarrow> node option \<Rightarrow> bool" where
  "same_kind a b =
     (case a of
        None \<Rightarrow> (case b of Some (SymbolicLink t) \<Rightarrow> False | _ \<Rightarrow> True)
      | Some (Directory m) \<Rightarrow> (case b of Some (Directory m') \<Rightarrow> True | _ \<Rightarrow> False)
      | Some (Regular m bs) \<Rightarrow> (case b of Some (Regular m' bs') \<Rightarrow> True | _ \<Rightarrow> False)
      | Some (SymbolicLink t) \<Rightarrow> b = Some (SymbolicLink t))"






text \<open>
  A small tree in \<open>/src\<close>: a directory \<open>sub\<close>, a file \<open>sub/a\<close> and a symbolic
  link \<open>l\<close> to it.
\<close>

definition tree_world :: world where
  "tree_world = quiet_world\<lparr>disk :=
     [([''src''], Directory 493), ([''src'', ''sub''], Directory 493),
      ([''src'', ''sub'', ''a''], Regular 420 [1, 2, 3]),
      ([''src'', ''l''], SymbolicLink ''sub/a'')]\<rparr>"

section \<open>Content hasher: properties\<close>

lemma length_Sprintf_x: "length (Sprintf_x bs) = 2 * length bs"
  by (induction bs) simp_all

lemma hashOne_readable:
  "readable os_Open name \<Longrightarrow> hashOne os_Open name h = (None, h @ content_of os_Open name)"
  by (auto simp: readable_def hashOne_def content_of_def hashOne_close_def
           split: sum.splits prod.splits option.splits bool.splits)

lemma hashAll_readable:
  "\<forall>name\<in>set names. readable os_Open name \<Longrightarrow>
   hashAll os_Open names h = Inr (h @ concat (map (content_of os_Open) names))"
  by (induction names arbitrary: h) (simp_all add: hashOne_readable)

text \<open>
  C9. When every path of the list can be opened, statted, read to the end and closed,
  \<open>HashFiles\<close> returns the hex encoding of the digest of the concatenation, in list
  order, of the contents of the entries that are not directories; a directory adds
  nothing and is no error. With a 16-byte digest the result has 32 characters.
\<close>

theorem HashFiles_digest_of_concatenation:
  assumes "\<forall>name\<in>set names. readable os_Open name"
      and "\<forall>m. length (digest m) = 16"
  shows "HashFiles digest os_Open names =
           Inr (Sprintf_x (digest (concat (map (content_of os_Open) names))))
         \<and> length (Sprintf_x (digest (concat (map (content_of os_Open) names)))) = 32"
  using assms by (simp add: HashFiles_def blake2b_New_def hashAll_readable length_Sprintf_x)

theorem HashFiles_digest_of_concatenation_witness:
  "readable demo_Open ''f1'' \<and> readable demo_Open ''d'' \<and> readable demo_Open ''f2''
   \<and> length (demo_digest [1, 2, 3]) = 16
   \<and> HashFiles demo_digest demo_Open [''f1'', ''d'', ''f2''] = Inr ''01020300000000000000000000000000''
   \<and> HashFiles demo_digest demo_Open [''f2'', ''d'', ''f1''] = Inr ''03010200000000000000000000000000''"
proof -
  have r: "\<forall>name\<in>set [''f1'', ''d'', ''f2'']. readable demo_Open name"
    by (simp add: readable_def demo_Open_def)
  have r': "\<forall>name\<in>set [''f2'', ''d'', ''f1'']. readable demo_Open name"
    by (simp add: readable_def demo_Open_def)
  have d: "\<forall>m. length (demo_digest m) = 16"
    by (auto simp: demo_digest_def)
  have c: "concat (map (content_of demo_Open) [''f1'', ''d'', ''f2'']) = [1, 2, 3]"
          "concat (map (content_of demo_Open) [''f2'', ''d'', ''f1'']) = [3, 1, 2]"
    by (simp_all add: content_of_def demo_Open_def)
  have x: "Sprintf_x (demo_digest [1, 2, 3]) = ''01020300000000000000000000000000''"
          "Sprintf_x (demo_digest [3, 1, 2]) = ''03010200000000000000000000000000''"
    by code_simp+
  show ?thesis
    using r d HashFiles_digest_of_concatenation [OF r d] HashFiles_digest_of_concatenation [OF r' d]
    by (simp only: c x) simp
qed

text \<open>
  C10. On the empty list \<open>HashFiles\<close> succeeds with the hex digest of the empty
  input, and so does \<open>HashGlob\<close> when the pattern matches nothing.
\<close>

theorem HashFiles_empty_list:
  "HashFiles digest os_Open [] = Inr (Sprintf_x (digest []))
   \<and> (filepath_Glob pattern = Inr [] \<longrightarrow>
        HashGlob digest os_Open filepath_Glob pattern = Inr (Sprintf_x (digest [])))"
  by (simp add: HashFiles_def HashGlob_def blake2b_New_def)

theorem HashFiles_empty_list_witness:
  "(\<lambda>p. Inr []) ''*.lock'' = (Inr [] :: error + string list)
   \<and> HashGlob demo_digest demo_Open (\<lambda>p. Inr []) ''*.lock'' = Inr ''00000000000000000000000000000000''"
proof -
  have x: "Sprintf_x (demo_digest []) = ''00000000000000000000000000000000''"
    by code_simp
  show ?thesis
    using HashFiles_empty_list [of demo_digest demo_Open "\<lambda>p. Inr []" "''*.lock''"]
    by (simp add: x)
qed

section \<open>Key resolver: properties\<close>

lemma record_call_simps [simp]:
  "bucket_objects (record_call w c) = bucket_objects w"
  "racing (record_call w c) = racing w"
  "clock (record_call w c) = clock w"
  "disk (record_call w c) = disk w"
  "files (record_call w c) = files w"
  "umask (record_call w c) = umask w"
  "GOOS (record_call w c) = GOOS w"
  "fault (record_call w c) = fault w"
  "calls (record_call w c) = calls w @ [c]"
  by (simp_all add: record_call_def files_def)

lemma scan_append: "scan m (xs @ ys) = scan (scan m xs) ys"
  by (induction xs arbitrary: m) (simp_all split: option.splits)

lemma search_no_fault:
  "\<forall>k\<in>set keys. fault w (CallObjects bucket k) = None \<Longrightarrow>
   search w bucket m keys =
     (Inr (scan m (candidates w bucket keys)), w\<lparr>calls := calls w @ map (CallObjects bucket) keys\<rparr>)"
proof (induction keys arbitrary: w m)
  case Nil
  then show ?case by (simp add: candidates_def)
next
  case (Cons k keys)
  let ?w' = "record_call w (CallObjects bucket k)"
  have f: "\<forall>k\<in>set keys. fault ?w' (CallObjects bucket k) = None"
    using Cons.prems by simp
  have c: "candidates ?w' bucket keys = candidates w bucket keys"
    by (simp add: candidates_def)
  show ?case
    using Cons.prems Cons.IH [OF f]
    by (simp add: Bucket_Objects_def c candidates_def scan_append record_call_def)
qed

lemma scan_Some:
  "\<exists>r. scan (Some m) cs = Some r \<and>
     ((r = m \<and> (\<forall>c\<in>set cs. Updated c \<le> Updated m)) \<or>
      (\<exists>i<length cs. r = cs ! i \<and> Updated m < Updated r
          \<and> (\<forall>j<i. Updated (cs ! j) < Updated r)
          \<and> (\<forall>j<length cs. Updated (cs ! j) \<le> Updated r)))"
proof (induction cs arbitrary: m)
  case Nil
  then show ?case by simp
next
  case (Cons c cs)
  show ?case
  proof (cases "Updated c > Updated m")
    case True
    from Cons.IH [of c] obtain r where r: "scan (Some c) cs = Some r"
      and d: "(r = c \<and> (\<forall>x\<in>set cs. Updated x \<le> Updated c)) \<or>
      (\<exists>i<length cs. r = cs ! i \<and> Updated c < Updated r
          \<and> (\<forall>j<i. Updated (cs ! j) < Updated r)
          \<and> (\<forall>j<length cs. Updated (cs ! j) \<le> Updated r))" by blast
    from d show ?thesis
    proof
      assume a: "r = c \<and> (\<forall>x\<in>set cs. Updated x \<le> Updated c)"
      have "\<forall>j<length (c # cs). Updated ((c # cs) ! j) \<le> Updated c"
        using a by (auto simp: nth_Cons split: nat.splits)
      then have "\<exists>i<length (c # cs). r = (c # cs) ! i \<and> Updated m < Updated r
          \<and> (\<forall>j<i. Updated ((c # cs) ! j) < Updated r)
          \<and> (\<forall>j<length (c # cs). Updated ((c # cs) ! j) \<le> Updated r)"
        using a True by (intro exI [of _ 0]) simp
      then show ?thesis using r True by simp
    next
      assume "\<exists>i<length cs. r = cs ! i \<and> Updated c < Updated r
          \<and> (\<forall>j<i. Updated (cs ! j) < Updated r)
          \<and> (\<forall>j<length cs. Updated (cs ! j) \<le> Updated r)"
      then obtain i where i: "i < length cs" "r = cs ! i" "Updated c < Updated r"
          "\<forall>j<i. Updated (cs ! j) < Updated r" "\<forall>j<length cs. Updated (cs ! j) \<le> Updated r"
        by blast
      have "\<forall>j<Suc i. Updated ((c # cs) ! j) < Updated r"
        using i by (auto simp: nth_Cons split: nat.splits)
      moreover have "\<forall>j<length (c # cs). Updated ((c # cs) ! j) \<le> Updated r"
        using i by (auto simp: nth_Cons split: nat.splits)
      ultimately have "\<exists>i<length (c # cs). r = (c # cs) ! i \<and> Updated m < Updated r
          \<and> (\<forall>j<i. Updated ((c # cs) ! j) < Updated r)
          \<and> (\<forall>j<length (c # cs). Updated ((c # cs) ! j) \<le> Updated r)"
        using i True by (intro exI [of _ "Suc i"]) simp
      then show ?thesis using r True by simp
    qed
  next
    case False
    from Cons.IH [of m] obtain r where r: "scan (Some m) cs = Some r"
      and d: "(r = m \<and> (\<forall>x\<in>set cs. Updated x \<le> Updated m)) \<or>
      (\<exists>i<length cs. r = cs ! i \<and> Updated m < Updated r
          \<and> (\<forall>j<i. Updated (cs ! j) < Updated r)
          \<and> (\<forall>j<length cs. Updated (cs ! j) \<le> Updated r))" by blast
    from d show ?thesis
    proof
      assume "r = m \<and> (\<forall>x\<in>set cs. Updated x \<le> Updated m)"
      then show ?thesis using r False by simp
    next
      assume "\<exists>i<length cs. r = cs ! i \<and> Updated m < Updated r
          \<and> (\<forall>j<i. Updated (cs ! j) < Updated r)
          \<and> (\<forall>j<length cs. Updated (cs ! j) \<le> Updated r)"
      then obtain i where i: "i < length cs" "r = cs ! i" "Updated m < Updated r"
          "\<forall>j<i. Updated (cs ! j) < Updated r" "\<forall>j<length cs. Updated (cs ! j) \<le> Updated r"
        by blast
      have "\<forall>j<Suc i. Updated ((c # cs) ! j) < Updated r"
        using i False by (auto simp: nth_Cons split: nat.splits)
      moreover have "\<forall>j<length (c # cs). Updated ((c # cs) ! j) \<le> Updated r"
        using i False by (auto simp: nth_Cons split: nat.splits)
      ultimately have "\<exists>i<length (c # cs). r = (c # cs) ! i \<and> Updated m < Updated r
          \<and> (\<forall>j<i. Updated ((c # cs) ! j) < Updated r)
          \<and> (\<forall>j<length (c # cs). Updated ((c # cs) ! j) \<le> Updated r)"
        using i by (intro exI [of _ "Suc i"]) simp
      then show ?thesis using r False by simp
    qed
  qed
qed

lemma scan_None:
  "cs \<noteq> [] \<Longrightarrow>
   \<exists>i<length cs. scan None cs = Some (cs ! i)
      \<and> (\<forall>j<i. Updated (cs ! j) < Updated (cs ! i))
      \<and> (\<forall>j<length cs. Updated (cs ! j) \<le> Updated (cs ! i))"
proof (cases cs)
  case Nil
  assume "cs \<noteq> []"
  with Nil show ?thesis by simp
next
  case (Cons c rest)
  from scan_Some [of c rest] obtain r where r: "scan (Some c) rest = Some r"
    and d: "(r = c \<and> (\<forall>x\<in>set rest. Updated x \<le> Updated c)) \<or>
      (\<exists>i<length rest. r = rest ! i \<and> Updated c < Updated r
          \<and> (\<forall>j<i. Updated (rest ! j) < Updated r)
          \<and> (\<forall>j<length rest. Updated (rest ! j) \<le> Updated r))" by blast
  from d show ?thesis
  proof
    assume a: "r = c \<and> (\<forall>x\<in>set rest. Updated x \<le> Updated c)"
    have "\<forall>j<length (c # rest). Updated ((c # rest) ! j) \<le> Updated c"
      using a by (auto simp: nth_Cons split: nat.splits)
    then show ?thesis
      using a r Cons by (intro exI [of _ 0]) simp
  next
    assume "\<exists>i<length rest. r = rest ! i \<and> Updated c < Updated r
          \<and> (\<forall>j<i. Updated (rest ! j) < Updated r)
          \<and> (\<forall>j<length rest. Updated (rest ! j) \<le> Updated r)"
    then obtain i where i: "i < length rest" "r = rest ! i" "Updated c < Updated r"
        "\<forall>j<i. Updated (rest ! j) < Updated r" "\<forall>j<length rest. Updated (rest ! j) \<le> Updated r"
      by blast
    have "\<forall>j<Suc i. Updated ((c # rest) ! j) < Updated r"
      using i by (auto simp: nth_Cons split: nat.splits)
    moreover have "\<forall>j<length (c # rest). Updated ((c # rest) ! j) \<le> Updated r"
      using i by (auto simp: nth_Cons split: nat.splits)
    ultimately show ?thesis
      using i r Cons by (intro exI [of _ "Suc i"]) simp
  qed
qed

lemma Restore_resolves:
  assumes "RestoreRequest.Bucket r \<noteq> []" and "RestoreRequest.Dir r \<noteq> []" and "Keys r \<noteq> []"
      and "\<forall>k\<in>set (Keys r). fault w (CallObjects (RestoreRequest.Bucket r) k) = None"
  shows "Restore w (Some r) =
    (case scan None (candidates w (RestoreRequest.Bucket r) (Keys r)) of
       None \<Rightarrow> (Some (Errorf ''failed to find cached objects among keys %q'' [Q (Keys r)]),
                 w\<lparr>calls := calls w @ map (CallObjects (RestoreRequest.Bucket r)) (Keys r)\<rparr>)
     | Some m \<Rightarrow> Restore_match (w\<lparr>calls := calls w @ map (CallObjects (RestoreRequest.Bucket r)) (Keys r)\<rparr>)
                    (RestoreRequest.Bucket r) (RestoreRequest.Dir r) m)"
  using assms(1-3) search_no_fault [OF assms(4), of None]
  by (cases "Keys r") (simp_all add: Restore_def split: option.splits)

text \<open>
  C6. For a valid request whose listings succeed and yield at least one candidate, the
  resolver of \<open>Restore\<close> selects one candidate out of those of all keys, the restore
  goes on with it, no candidate has a later timestamp, and every candidate enumerated
  before it has a strictly earlier one: of the newest candidates the first found is kept.
\<close>

theorem Restore_selects_newest_first_found:
  assumes "RestoreRequest.Bucket r \<noteq> []" and "RestoreRequest.Dir r \<noteq> []" and "Keys r \<noteq> []"
      and "\<forall>k\<in>set (Keys r). fault w (CallObjects (RestoreRequest.Bucket r) k) = None"
      and "candidates w (RestoreRequest.Bucket r) (Keys r) \<noteq> []"
  shows "\<exists>i<length (candidates w (RestoreRequest.Bucket r) (Keys r)).
           fst (search w (RestoreRequest.Bucket r) None (Keys r)) =
             Inr (Some (candidates w (RestoreRequest.Bucket r) (Keys r) ! i))
           \<and> Restore w (Some r) =
               Restore_match (w\<lparr>calls := calls w @ map (CallObjects (RestoreRequest.Bucket r)) (Keys r)\<rparr>)
                 (RestoreRequest.Bucket r) (RestoreRequest.Dir r)
                 (candidates w (RestoreRequest.Bucket r) (Keys r) ! i)
           \<and> (\<forall>j<length (candidates w (RestoreRequest.Bucket r) (Keys r)).
                 Updated (candidates w (RestoreRequest.Bucket r) (Keys r) ! j)
                   \<le> Updated (candidates w (RestoreRequest.Bucket r) (Keys r) ! i))
           \<and> (\<forall>j<i. Updated (candidates w (RestoreRequest.Bucket r) (Keys r) ! j)
                   < Updated (candidates w (RestoreRequest.Bucket r) (Keys r) ! i))"
proof -
  let ?cs = "candidates w (RestoreRequest.Bucket r) (Keys r)"
  from scan_None [OF assms(5)] obtain i where i: "i < length ?cs" "scan None ?cs = Some (?cs ! i)"
     "\<forall>j<i. Updated (?cs ! j) < Updated (?cs ! i)"
     "\<forall>j<length ?cs. Updated (?cs ! j) \<le> Updated (?cs ! i)"
    by blast
  have s: "fst (search w (RestoreRequest.Bucket r) None (Keys r)) = Inr (Some (?cs ! i))"
    using search_no_fault [OF assms(4), of None] i(2) by simp
  have m: "Restore w (Some r) =
      Restore_match (w\<lparr>calls := calls w @ map (CallObjects (RestoreRequest.Bucket r)) (Keys r)\<rparr>)
        (RestoreRequest.Bucket r) (RestoreRequest.Dir r) (?cs ! i)"
    using Restore_resolves [OF assms(1-4)] i(2) by simp
  show ?thesis
    using i(1,3,4) s m by blast
qed

theorem Restore_selects_newest_first_found_witness:
  "candidates listing_world ''b'' [''k-2'', ''k''] =
     [attrs_of ''k-2'' 5, attrs_of ''k-1'' 1, attrs_of ''k-2'' 5, attrs_of ''k-3'' 5]
   \<and> fst (search listing_world ''b'' None [''k-2'', ''k'']) = Inr (Some (attrs_of ''k-2'' 5))
   \<and> fst (search listing_world ''b'' None [''k'']) = Inr (Some (attrs_of ''k-2'' 5))
   \<and> (\<exists>i<length (candidates listing_world ''b'' [''k-2'', ''k'']).
           fst (search listing_world ''b'' None [''k-2'', ''k'']) =
             Inr (Some (candidates listing_world ''b'' [''k-2'', ''k''] ! i))
           \<and> (\<forall>j<length (candidates listing_world ''b'' [''k-2'', ''k'']).
                 Updated (candidates listing_world ''b'' [''k-2'', ''k''] ! j)
                   \<le> Updated (candidates listing_world ''b'' [''k-2'', ''k''] ! i))
           \<and> (\<forall>j<i. Updated (candidates listing_world ''b'' [''k-2'', ''k''] ! j)
                   < Updated (candidates listing_world ''b'' [''k-2'', ''k''] ! i)))"
proof -
  let ?r = "\<lparr>RestoreRequest.Bucket = ''b'', Keys = [''k-2'', ''k''], Dir = ''/out''\<rparr>"
  have c: "candidates listing_world ''b'' [''k-2'', ''k''] =
     [attrs_of ''k-2'' 5, attrs_of ''k-1'' 1, attrs_of ''k-2'' 5, attrs_of ''k-3'' 5]"
    by (simp add: candidates_def listing_world_def attrs_of_def)
  have h: "RestoreRequest.Bucket ?r \<noteq> []" "RestoreRequest.Dir ?r \<noteq> []" "Keys ?r \<noteq> []"
    by simp_all
  have f: "\<forall>k\<in>set (Keys ?r). fault listing_world (CallObjects (RestoreRequest.Bucket ?r) k) = None"
    by (simp add: listing_world_def quiet_world_def)
  have n: "candidates listing_world (RestoreRequest.Bucket ?r) (Keys ?r) \<noteq> []"
    using c by simp
  have s: "fst (search listing_world ''b'' None [''k-2'', ''k'']) = Inr (Some (attrs_of ''k-2'' 5))"
          "fst (search listing_world ''b'' None [''k'']) = Inr (Some (attrs_of ''k-2'' 5))"
    by (simp_all add: Bucket_Objects_def listing_world_def quiet_world_def attrs_of_def)
  from Restore_selects_newest_first_found [OF h f n]
  have "\<exists>i<length (candidates listing_world ''b'' [''k-2'', ''k'']).
           fst (search listing_world ''b'' None [''k-2'', ''k'']) =
             Inr (Some (candidates listing_world ''b'' [''k-2'', ''k''] ! i))
           \<and> (\<forall>j<length (candidates listing_world ''b'' [''k-2'', ''k'']).
                 Updated (candidates listing_world ''b'' [''k-2'', ''k''] ! j)
                   \<le> Updated (candidates listing_world ''b'' [''k-2'', ''k''] ! i))
           \<and> (\<forall>j<i. Updated (candidates listing_world ''b'' [''k-2'', ''k''] ! j)
                   < Updated (candidates listing_world ''b'' [''k-2'', ''k''] ! i))"
    by simp blast
  then show ?thesis using c s by blast
qed

text \<open>
  C8. For a valid request whose listings succeed, when no object of the bucket has any
  of the keys as a prefix of its name, \<open>Restore\<close> fails with the error that quotes
  all the keys; the only calls it has made are the listings, one per key, so no
  directory was made and no object was read.
\<close>

theorem Restore_not_found:
  assumes "RestoreRequest.Bucket r \<noteq> []" and "RestoreRequest.Dir r \<noteq> []" and "Keys r \<noteq> []"
      and "\<forall>k\<in>set (Keys r). fault w (CallObjects (RestoreRequest.Bucket r) k) = None"
      and "\<forall>k\<in>set (Keys r). \<forall>ob\<in>set (bucket_objects w (RestoreRequest.Bucket r)).
             \<not> prefix k (ObjectName (fst ob))"
  shows "Restore w (Some r) =
           (Some (Errorf ''failed to find cached objects among keys %q'' [Q (Keys r)]),
            w\<lparr>calls := calls w @ map (CallObjects (RestoreRequest.Bucket r)) (Keys r)\<rparr>)"
proof -
  have "candidates w (RestoreRequest.Bucket r) (Keys r) = []"
    using assms(5) by (auto simp: candidates_def filter_empty_conv)
  then show ?thesis
    using Restore_resolves [OF assms(1-4)] by simp
qed

theorem Restore_not_found_witness:
  "Restore listing_world (Some \<lparr>RestoreRequest.Bucket = ''b'', Keys = [''nope'', ''k-9''], Dir = ''/out''\<rparr>) =
     (Some (Errorf ''failed to find cached objects among keys %q'' [Q [''nope'', ''k-9'']]),
      listing_world\<lparr>calls := [CallObjects ''b'' ''nope'', CallObjects ''b'' ''k-9'']\<rparr>)
   \<and> files listing_world = Map.empty"
proof -
  let ?r = "\<lparr>RestoreRequest.Bucket = ''b'', Keys = [''nope'', ''k-9''], Dir = ''/out''\<rparr>"
  have h: "RestoreRequest.Bucket ?r \<noteq> []" "RestoreRequest.Dir ?r \<noteq> []" "Keys ?r \<noteq> []"
    by simp_all
  have f: "\<forall>k\<in>set (Keys ?r). fault listing_world (CallObjects (RestoreRequest.Bucket ?r) k) = None"
    by (simp add: listing_world_def quiet_world_def)
  have p: "\<forall>k\<in>set (Keys ?r). \<forall>ob\<in>set (bucket_objects listing_world (RestoreRequest.Bucket ?r)).
             \<not> prefix k (ObjectName (fst ob))"
    by (simp add: listing_world_def quiet_world_def attrs_of_def)
  show ?thesis
    using Restore_not_found [OF h f p]
    by (simp add: listing_world_def quiet_world_def files_def)
qed

section \<open>Save: properties\<close>

lemma Save_exists:
  assumes "SaveRequest.Bucket r \<noteq> []" and "SaveRequest.Dir r \<noteq> []" and "Key r \<noteq> []"
      and "fault w (CallAttrs (SaveRequest.Bucket r) (Key r)) = None"
      and "object_exists w (SaveRequest.Bucket r) (Key r)"
  shows "Save w (Some r) = (None, record_call w (CallAttrs (SaveRequest.Bucket r) (Key r)))"
  using assms by (auto simp: Save_def Object_Attrs_def object_exists_def split: option.splits)

lemma object_exists_member:
  "ob \<in> set (bucket_objects w bucket) \<Longrightarrow> ObjectName (fst ob) = key \<Longrightarrow> object_exists w bucket key"
  by (cases ob) (auto simp: object_exists_def find_None_iff)

lemma Writer_Close_exists:
  assumes "fault w (CallWriterClose (writer_bucket gcsw) (writer_key gcsw)) = None"
      and "DoesNotExist gcsw"
      and "Writer_Close w gcsw = (c, w')"
  shows "fault w' = fault w \<and> object_exists w' (writer_bucket gcsw) (writer_key gcsw)"
proof (cases "find (\<lambda>ob. ObjectName (fst ob) = writer_key gcsw) (bucket_objects w (writer_bucket gcsw)) = None")
  case False
  then have "w' = record_call w (CallWriterClose (writer_bucket gcsw) (writer_key gcsw))"
    using assms by (simp add: Writer_Close_def Let_def)
  then show ?thesis
    using False by (simp add: object_exists_def)
next
  case True
  let ?b = "writer_bucket gcsw" and ?k = "writer_key gcsw"
  let ?new = "(\<lparr>ObjectName = ?k, Updated = clock w, ContentType = writer_ContentType gcsw,
                 CacheControl = writer_CacheControl gcsw\<rparr>, written gcsw)"
  have w': "w' = (record_call w (CallWriterClose ?b ?k))
              \<lparr>bucket_objects := (bucket_objects w)
                  (?b := filter (\<lambda>ob. ObjectName (fst ob) \<noteq> ?k) (bucket_objects w ?b) @ [?new]),
               clock := clock w + 1\<rparr>"
    using assms True by (simp add: Writer_Close_def Let_def)
  have "?new \<in> set (bucket_objects w' ?b)"
    by (simp add: w')
  then have "object_exists w' ?b ?k"
    by (rule object_exists_member) simp
  moreover have "fault w' = fault w"
    by (simp add: w')
  ultimately show ?thesis by simp
qed

lemma Save_close_exists:
  assumes "fault w (CallWriterClose (writer_bucket gcsw) (writer_key gcsw)) = None"
      and "DoesNotExist gcsw"
      and "Save_close w gcsw retErr = (e, w')"
  shows "fault w' = fault w \<and> object_exists w' (writer_bucket gcsw) (writer_key gcsw)"
proof -
  obtain c w1 where c: "Writer_Close w gcsw = (c, w1)"
    by (cases "Writer_Close w gcsw")
  have "w' = w1"
    using assms(3) c by (auto simp: Save_close_def split: option.splits)
  then show ?thesis
    using Writer_Close_exists [OF assms(1,2) c] by simp
qed

lemma Save_upload_close:
  "\<exists>gcsw w4 retErr. writer_bucket gcsw = bucket \<and> writer_key gcsw = key \<and> DoesNotExist gcsw
      \<and> fault w4 = fault w \<and> bucket_objects w4 = (\<lambda>b. bucket_objects w b @ racing w b)
      \<and> Save_upload w bucket key dir = Save_close w4 gcsw retErr"
proof -
  obtain gcsw0 w2 where nw: "NewWriter w bucket key True = (gcsw0, w2)"
    by (cases "NewWriter w bucket key True")
  let ?gcsw = "gcsw0\<lparr>ChunkSize := 128000000, writer_ContentType := contentType,
                            writer_CacheControl := cacheControl\<rparr>"
  have g: "writer_bucket ?gcsw = bucket" "writer_key ?gcsw = key" "DoesNotExist ?gcsw"
          "fault w2 = fault w" "bucket_objects w2 = (\<lambda>b. bucket_objects w b @ racing w b)"
    using nw by (auto simp: NewWriter_def)
  obtain res w3 where ff: "archiver_FilesFromDisk w2 dir = (res, w3)"
    by (cases "archiver_FilesFromDisk w2 dir")
  have f3: "fault w3 = fault w2" "bucket_objects w3 = bucket_objects w2"
    using ff by (auto simp: archiver_FilesFromDisk_def Let_def split: option.splits)
  show ?thesis
  proof (cases res)
    case (Inl err)
    then have "Save_upload w bucket key dir = Save_close w3 ?gcsw (Some err)"
      using nw ff by (simp add: Save_upload_def)
    then show ?thesis
      using g f3 by (metis (no_types))
  next
    case (Inr fs)
    obtain e gcsw' w4 where ar: "Archive w3 ?gcsw fs = (e, gcsw', w4)"
      by (cases "Archive w3 ?gcsw fs")
    have a: "fault w4 = fault w3" "bucket_objects w4 = bucket_objects w3"
            "writer_bucket gcsw' = bucket" "writer_key gcsw' = key" "DoesNotExist gcsw'"
      using ar g(1-3) by (auto simp: Archive_def Let_def split: option.splits)
    have "Save_upload w bucket key dir = Save_close w4 gcsw' e"
      using nw ff ar Inr by (cases e) (simp_all add: Save_upload_def)
    then show ?thesis
      using a g f3 by (metis (no_types))
  qed
qed

lemma Save_leaves_object:
  assumes "SaveRequest.Bucket r \<noteq> []" and "SaveRequest.Dir r \<noteq> []" and "Key r \<noteq> []"
      and "fault w (CallAttrs (SaveRequest.Bucket r) (Key r)) = None"
      and "fault w (CallWriterClose (SaveRequest.Bucket r) (Key r)) = None"
      and "Save w (Some r) = (e, w')"
  shows "fault w' = fault w \<and> object_exists w' (SaveRequest.Bucket r) (Key r)"
proof -
  let ?b = "SaveRequest.Bucket r" and ?k = "Key r"
  let ?w1 = "record_call w (CallAttrs ?b ?k)"
  show ?thesis
  proof (cases "object_exists w ?b ?k")
    case True
    then have "w' = ?w1"
      using Save_exists [OF assms(1-4) True] assms(6) by simp
    then show ?thesis
      using True by (simp add: object_exists_def)
  next
    case False
    then have n: "find (\<lambda>ob. ObjectName (fst ob) = ?k) (bucket_objects w ?b) = None"
      unfolding object_exists_def by blast
    have s: "Save w (Some r) = Save_upload ?w1 ?b ?k (SaveRequest.Dir r)"
      using assms(1-4) by (simp add: Save_def Object_Attrs_def n Let_def)
    obtain gcsw w4 retErr where g: "writer_bucket gcsw = ?b" "writer_key gcsw = ?k"
        "DoesNotExist gcsw" "fault w4 = fault ?w1"
        "Save_upload ?w1 ?b ?k (SaveRequest.Dir r) = Save_close w4 gcsw retErr"
      using Save_upload_close [of ?b ?k ?w1 "SaveRequest.Dir r"] by blast
    have f4: "fault w4 (CallWriterClose (writer_bucket gcsw) (writer_key gcsw)) = None"
      using g(1,2,4) assms(5) by simp
    have "Save_close w4 gcsw retErr = (e, w')"
      using s g(5) assms(6) by simp
    from Save_close_exists [OF f4 g(3) this] show ?thesis
      using g(1,2,4) by simp
  qed
qed

text \<open>
  C7. For a valid request, where the environment fails neither the probe nor the
  commit: when an object is stored under the key, \<open>Save\<close> returns success and the
  probe is the only call it makes, so no writer is opened and the store is as before;
  and after any \<open>Save\<close>, whatever it returned, a second \<open>Save\<close> with the same
  request is such a call.
\<close>

theorem Save_idempotent:
  assumes "SaveRequest.Bucket r \<noteq> []" and "SaveRequest.Dir r \<noteq> []" and "Key r \<noteq> []"
      and "fault w (CallAttrs (SaveRequest.Bucket r) (Key r)) = None"
      and "fault w (CallWriterClose (SaveRequest.Bucket r) (Key r)) = None"
  shows "(object_exists w (SaveRequest.Bucket r) (Key r) \<longrightarrow>
            Save w (Some r) = (None, record_call w (CallAttrs (SaveRequest.Bucket r) (Key r))))
       \<and> (\<forall>e w1. Save w (Some r) = (e, w1) \<longrightarrow>
            Save w1 (Some r) = (None, record_call w1 (CallAttrs (SaveRequest.Bucket r) (Key r))))"
proof (intro conjI allI impI)
  assume "object_exists w (SaveRequest.Bucket r) (Key r)"
  then show "Save w (Some r) = (None, record_call w (CallAttrs (SaveRequest.Bucket r) (Key r)))"
    using Save_exists assms(1-4) by blast
next
  fix e w1
  assume s: "Save w (Some r) = (e, w1)"
  from Save_leaves_object [OF assms s] assms(4)
  have "fault w1 (CallAttrs (SaveRequest.Bucket r) (Key r)) = None"
       "object_exists w1 (SaveRequest.Bucket r) (Key r)"
    by simp_all
  then show "Save w1 (Some r) = (None, record_call w1 (CallAttrs (SaveRequest.Bucket r) (Key r)))"
    using Save_exists [OF assms(1-3)] by blast
qed

lemmas Save_defs =
  Save_def Object_Attrs_def Save_upload_def NewWriter_def archiver_FilesFromDisk_def
  Archive_def Save_close_def Writer_Close_def record_call_def Let_def

theorem Save_idempotent_witness:
  "object_exists stored_world ''b'' ''k''
   \<and> Save stored_world (Some demo_save) = (None, record_call stored_world (CallAttrs ''b'' ''k''))
   \<and> Save (snd (Save quiet_world (Some demo_save))) (Some demo_save) =
       (None, record_call (snd (Save quiet_world (Some demo_save))) (CallAttrs ''b'' ''k''))
   \<and> Save (snd (Save race_world (Some demo_save))) (Some demo_save) =
       (None, record_call (snd (Save race_world (Some demo_save))) (CallAttrs ''b'' ''k''))"
proof -
  have v: "SaveRequest.Bucket demo_save \<noteq> []" "SaveRequest.Dir demo_save \<noteq> []" "Key demo_save \<noteq> []"
    by (simp_all add: demo_save_def)
  have b: "SaveRequest.Bucket demo_save = ''b''" "Key demo_save = ''k''"
    by (simp_all add: demo_save_def)
  have f1: "fault stored_world (CallAttrs (SaveRequest.Bucket demo_save) (Key demo_save)) = None"
           "fault stored_world (CallWriterClose (SaveRequest.Bucket demo_save) (Key demo_save)) = None"
    by (simp_all add: stored_world_def quiet_world_def)
  have f2: "fault quiet_world (CallAttrs (SaveRequest.Bucket demo_save) (Key demo_save)) = None"
           "fault quiet_world (CallWriterClose (SaveRequest.Bucket demo_save) (Key demo_save)) = None"
    by (simp_all add: quiet_world_def)
  have f3: "fault race_world (CallAttrs (SaveRequest.Bucket demo_save) (Key demo_save)) = None"
           "fault race_world (CallWriterClose (SaveRequest.Bucket demo_save) (Key demo_save)) = None"
    by (simp_all add: race_world_def quiet_world_def)
  have e: "object_exists stored_world ''b'' ''k''"
    by (simp add: object_exists_def stored_world_def quiet_world_def attrs_of_def)
  have s2: "Save quiet_world (Some demo_save) =
              (fst (Save quiet_world (Some demo_save)), snd (Save quiet_world (Some demo_save)))"
           "Save race_world (Some demo_save) =
              (fst (Save race_world (Some demo_save)), snd (Save race_world (Some demo_save)))"
    by simp_all
  show ?thesis
    using Save_idempotent [OF v f1] e
          Save_idempotent [OF v f2, THEN conjunct2, rule_format, OF s2(1)]
          Save_idempotent [OF v f3, THEN conjunct2, rule_format, OF s2(2)]
    by (simp add: b)
qed

text \<open>
  C2, as stated, fails: when another process creates the key between the probe and the
  commit, the store rejects the commit with status 412 and \<open>Save\<close> returns that as
  an error.
\<close>

theorem Save_precondition_failed_counterexample:
  "fst (Save race_world (Some demo_save)) =
     Some (Errorf ''failed to close gcs writer: %w'' [W (GoogleAPIError 412)])"
  by (simp add: Save_defs demo_save_def race_world_def quiet_world_def attrs_of_def)

lemma Save_close_failed:
  assumes "Writer_Close w gcsw = (Some cerr, w')"
  shows "\<exists>e. fst (Save_close w gcsw retErr) = Some e \<and>
           (e = Errorf ''failed to close gcs writer: %w'' [W cerr] \<or>
            (\<exists>p. e = Errorf ''%v: failed to close gcs writer: %w'' [V p, W cerr]))"
  using assms by (cases retErr) (simp_all add: Save_close_def)

text \<open>
  C2, amended. What the code does with a failed commit does not depend on why it
  failed: after a probe that found nothing, whether the environment fails the close
  with some error or the store rejects it with status 412 because a racing process
  created the key, \<open>Save\<close> returns an error that wraps the close error.
\<close>

theorem Save_returns_every_close_error:
  assumes "SaveRequest.Bucket r \<noteq> []" and "SaveRequest.Dir r \<noteq> []" and "Key r \<noteq> []"
      and "fault w (CallAttrs (SaveRequest.Bucket r) (Key r)) = None"
      and "\<not> object_exists w (SaveRequest.Bucket r) (Key r)"
      and "fault w (CallWriterClose (SaveRequest.Bucket r) (Key r)) = Some cerr
           \<or> (fault w (CallWriterClose (SaveRequest.Bucket r) (Key r)) = None
               \<and> cerr = GoogleAPIError 412
               \<and> find (\<lambda>ob. ObjectName (fst ob) = Key r) (racing w (SaveRequest.Bucket r)) \<noteq> None)"
  shows "\<exists>e. fst (Save w (Some r)) = Some e \<and>
           (e = Errorf ''failed to close gcs writer: %w'' [W cerr] \<or>
            (\<exists>p. e = Errorf ''%v: failed to close gcs writer: %w'' [V p, W cerr]))"
proof -
  let ?b = "SaveRequest.Bucket r" and ?k = "Key r"
  let ?w1 = "record_call w (CallAttrs ?b ?k)"
  have n: "find (\<lambda>ob. ObjectName (fst ob) = ?k) (bucket_objects w ?b) = None"
    using assms(5) unfolding object_exists_def by blast
  have s: "Save w (Some r) = Save_upload ?w1 ?b ?k (SaveRequest.Dir r)"
    using assms(1-4) by (simp add: Save_def Object_Attrs_def n Let_def)
  obtain gcsw w4 retErr where g: "writer_bucket gcsw = ?b" "writer_key gcsw = ?k" "DoesNotExist gcsw"
      "fault w4 = fault ?w1" "bucket_objects w4 = (\<lambda>b. bucket_objects ?w1 b @ racing ?w1 b)"
      "Save_upload ?w1 ?b ?k (SaveRequest.Dir r) = Save_close w4 gcsw retErr"
    using Save_upload_close [of ?b ?k ?w1 "SaveRequest.Dir r"] by blast
  have wc: "\<exists>w'. Writer_Close w4 gcsw = (Some cerr, w')"
    using assms(6)
  proof
    assume "fault w (CallWriterClose ?b ?k) = Some cerr"
    then show ?thesis
      using g by (simp add: Writer_Close_def Let_def)
  next
    assume a: "fault w (CallWriterClose ?b ?k) = None \<and> cerr = GoogleAPIError 412
               \<and> find (\<lambda>ob. ObjectName (fst ob) = ?k) (racing w ?b) \<noteq> None"
    then have "find (\<lambda>ob. ObjectName (fst ob) = ?k) (bucket_objects w4 ?b) \<noteq> None"
      using g(5) by (auto simp: find_None_iff)
    then show ?thesis
      using a g by (simp add: Writer_Close_def Let_def)
  qed
  then obtain w' where "Writer_Close w4 gcsw = (Some cerr, w')"
    by blast
  from Save_close_failed [OF this, of retErr] show ?thesis
    by (simp only: s g(6))
qed

theorem Save_returns_every_close_error_witness:
  "fst (Save race_world (Some demo_save)) =
     Some (Errorf ''failed to close gcs writer: %w'' [W (GoogleAPIError 412)])
   \<and> fst (Save (quiet_world\<lparr>fault := (\<lambda>c. if c = CallWriterClose ''b'' ''k'' then Some (Failure ''connection reset'') else None)\<rparr>)
            (Some demo_save)) =
     Some (Errorf ''failed to close gcs writer: %w'' [W (Failure ''connection reset'')])
   \<and> (\<exists>e. fst (Save race_world (Some demo_save)) = Some e \<and>
           (e = Errorf ''failed to close gcs writer: %w'' [W (GoogleAPIError 412)] \<or>
            (\<exists>p. e = Errorf ''%v: failed to close gcs writer: %w'' [V p, W (GoogleAPIError 412)])))"
proof -
  have v: "SaveRequest.Bucket demo_save \<noteq> []" "SaveRequest.Dir demo_save \<noteq> []" "Key demo_save \<noteq> []"
    by (simp_all add: demo_save_def)
  have f: "fault race_world (CallAttrs (SaveRequest.Bucket demo_save) (Key demo_save)) = None"
    by (simp add: race_world_def quiet_world_def)
  have n: "\<not> object_exists race_world (SaveRequest.Bucket demo_save) (Key demo_save)"
    by (simp add: object_exists_def race_world_def quiet_world_def)
  have c: "fault race_world (CallWriterClose (SaveRequest.Bucket demo_save) (Key demo_save)) = Some (GoogleAPIError 412)
           \<or> (fault race_world (CallWriterClose (SaveRequest.Bucket demo_save) (Key demo_save)) = None
               \<and> GoogleAPIError 412 = GoogleAPIError 412
               \<and> find (\<lambda>ob. ObjectName (fst ob) = Key demo_save) (racing race_world (SaveRequest.Bucket demo_save)) \<noteq> None)"
    by (simp add: race_world_def quiet_world_def demo_save_def attrs_of_def)
  have a: "fst (Save race_world (Some demo_save)) =
     Some (Errorf ''failed to close gcs writer: %w'' [W (GoogleAPIError 412)])"
    by (simp add: Save_defs demo_save_def race_world_def quiet_world_def attrs_of_def)
  have b: "fst (Save (quiet_world\<lparr>fault := (\<lambda>c. if c = CallWriterClose ''b'' ''k'' then Some (Failure ''connection reset'') else None)\<rparr>)
            (Some demo_save)) =
     Some (Errorf ''failed to close gcs writer: %w'' [W (Failure ''connection reset'')])"
    by (simp add: Save_defs demo_save_def quiet_world_def)
  have t: "\<exists>e. fst (Save race_world (Some demo_save)) = Some e \<and>
           (e = Errorf ''failed to close gcs writer: %w'' [W (GoogleAPIError 412)] \<or>
            (\<exists>p. e = Errorf ''%v: failed to close gcs writer: %w'' [V p, W (GoogleAPIError 412)]))"
    by (rule Save_returns_every_close_error [OF v f n c])
  show ?thesis
    by (intro conjI a b t)
qed

section \<open>Extraction: properties\<close>

lemmas fs_defs =
  handler_def handle_dir_def handle_reg_def handle_symlink_def handle_link_def make_parent_def
  copy_content_def os_MkdirAll_def os_Create_def File_Chmod_def File_Open_def io_Copy_def
  File_Close_def os_Symlink_def os_Link_def node_at_def record_call_def files_def
  Mkdir_elems_def stat_at_def os_Stat_def os_Lstat_def link_limit_def elements_def rooted_def
  chmod_bits_def filepath_Join_def filepath_Dir_def Clean_def Let_def
  TypeReg_def TypeRegA_def TypeLink_def TypeSymlink_def TypeChar_def TypeBlock_def TypeDir_def
  TypeFifo_def TypeXGlobalHeader_def

lemmas Restore_defs =
  Restore_def Restore_match_def Restore_close_def Reader_Close_def Object_NewReader_def
  Bucket_Objects_def

text \<open>
  C1 fails on the code. The archive of object \<open>k\<close> holds an entry of unknown type:
  the extraction of it fails, and \<open>Restore\<close> returns success all the same, because
  the result of the extraction is dropped.
\<close>

theorem Restore_ignores_failed_extraction:
  "fst (Extract (handler ''/out'') quiet_world [entry_a, entry_weird]) =
     Some (Errorf ''handling file: %s: %w''
             [S ''weird'', W (Errorf ''%s: unknown type flag: %c'' [S ''weird'', C (CHR ''Z'')])])
   \<and> fst (Restore archive_world (Some demo_restore)) = None"
  by (simp add: fs_defs Restore_defs archive_world_def demo_restore_def quiet_world_def attrs_of_def
                entry_a_def entry_weird_def)

text \<open>
  C4 fails on the code. After \<open>a\<close> was extracted to \<open>/out/a\<close>, the hard link
  \<open>b\<close> to \<open>a\<close> asks the operating system to link \<open>/out/b/a\<close>, the target
  joined to the path of the link itself, not \<open>/out/a\<close>; that file does not exist,
  the entry fails and no link is made.
\<close>

theorem hardlink_target_joined_to_link_path:
  "files (snd (handler ''/out'' quiet_world entry_a)) [''out'', ''a''] = Some (Regular 420 [1, 2, 3])
   \<and> calls (snd (handler ''/out'' (snd (handler ''/out'' quiet_world entry_a)) entry_b)) =
       calls (snd (handler ''/out'' quiet_world entry_a)) @
         [CallMkdirAll ''/out'', CallLink ''/out/b/a'' ''/out/b'']
   \<and> fst (handler ''/out'' (snd (handler ''/out'' quiet_world entry_a)) entry_b) =
       Some (Errorf ''%s: making symbolic link for: %v'' [S ''/out/b'', V (Errno ''ENOENT'')])
   \<and> files (snd (handler ''/out'' (snd (handler ''/out'' quiet_world entry_a)) entry_b)) [''out'', ''b''] = None"
  by (simp add: fs_defs quiet_world_def entry_a_def entry_b_def)

text \<open>
  C5, as stated, fails: the mode is applied before the content is copied, not after.
  The calls show the order; and where the mode change fails (not on windows), the
  entry fails with the file created and still empty.
\<close>

theorem regular_file_mode_before_copy_counterexample:
  "calls (snd (handler ''/out'' quiet_world entry_a)) =
     [CallMkdirAll ''/out'', CallCreate ''/out/a'', CallChmod ''/out/a'' 420, CallOpen ''a'',
      CallCopy ''/out/a'', CallClose ''/out/a'']
   \<and> fst (handler ''/out'' chmod_fails_world entry_a) =
       Some (Errorf ''%s: changing file mode: %v'' [S ''/out/a'', V (Errno ''EPERM'')])
   \<and> calls (snd (handler ''/out'' chmod_fails_world entry_a)) =
       [CallMkdirAll ''/out'', CallCreate ''/out/a'', CallChmod ''/out/a'' 420, CallClose ''/out/a'']
   \<and> files (snd (handler ''/out'' chmod_fails_world entry_a)) [''out'', ''a''] = Some (Regular 420 [])"
  by (simp add: fs_defs quiet_world_def chmod_fails_world_def entry_a_def)

text \<open>
  Path resolution is stable: what is created where nothing was, or changed in place, does
  not change where an existing path leads.
\<close>

lemma same_kind_Directory:
  "same_kind (Some (Directory a)) b \<Longrightarrow> \<exists>a'. b = Some (Directory a')"
  by (auto simp: same_kind_def split: option.splits node.splits)

lemma same_kind_Regular:
  "same_kind (Some (Regular a bs)) b \<Longrightarrow> \<exists>a' bs'. b = Some (Regular a' bs')"
  by (auto simp: same_kind_def split: option.splits node.splits)

lemma same_kind_SymbolicLink:
  "same_kind (Some (SymbolicLink t)) b \<Longrightarrow> b = Some (SymbolicLink t)"
  by (auto simp: same_kind_def split: option.splits node.splits)

lemma same_kind_None:
  "same_kind None b \<Longrightarrow> b = None \<or> (\<exists>a. b = Some (Directory a)) \<or> (\<exists>a bs. b = Some (Regular a bs))"
  by (auto simp: same_kind_def split: option.splits node.splits)

lemma locate_stable:
  "locate m n f cur rest = Inr q \<Longrightarrow> q \<notin> A \<Longrightarrow> (\<forall>x. x \<notin> A \<longrightarrow> same_kind (m x) (m' x))
   \<Longrightarrow> (\<forall>x\<in>A. m x = None) \<Longrightarrow> [] \<notin> A \<Longrightarrow> locate m' n f cur rest = Inr q"
proof (induction m n f cur rest arbitrary: q rule: locate.induct)
  case (1 fs n follow cur)
  then show ?case by simp
next
  case (2 fs n follow cur c rest)
  note loc = "2.prems"(1) and qS = "2.prems"(2) and compat = "2.prems"(3)
   and none = "2.prems"(4) and root = "2.prems"(5)
  show ?case
  proof (cases "c = ''..''")
    case True
    then show ?thesis
      using "2.IH"(1) [OF True _ qS compat none root] loc by simp
  next
    case False
    let ?x = "cur @ [c]"
    show ?thesis
    proof (cases "?x \<in> A")
      case True
      then have "fs ?x = None" using none by blast
      then have "q = ?x" using loc False by (simp split: if_splits)
      then show ?thesis using True qS by simp
    next
      case out: False
      then have sk: "same_kind (fs ?x) (m' ?x)" using compat by blast
      show ?thesis
      proof (cases "fs ?x")
        case None
        then have r: "rest = []" "q = ?x"
          using loc False by (simp_all split: if_splits)
        from same_kind_None [OF sk [unfolded None]] show ?thesis
          using r False by auto
      next
        case (Some nd)
        show ?thesis
        proof (cases nd)
          case (Directory a)
          from same_kind_Directory [OF sk [unfolded Some Directory]]
          obtain a' where a': "m' ?x = Some (Directory a')" by blast
          have "locate fs n follow ?x rest = Inr q"
            using loc False Some Directory by simp
          from "2.IH"(2) [OF False Some Directory this qS compat none root]
          show ?thesis using False a' by simp
        next
          case (Regular a bs)
          from same_kind_Regular [OF sk [unfolded Some Regular]]
          obtain a' bs' where a': "m' ?x = Some (Regular a' bs')" by blast
          have "rest = []" "q = ?x"
            using loc False Some Regular by (simp_all split: if_splits)
          then show ?thesis using False a' by simp
        next
          case (SymbolicLink t)
          from same_kind_SymbolicLink [OF sk [unfolded Some SymbolicLink]]
          have a': "m' ?x = Some (SymbolicLink t)" .
          show ?thesis
          proof (cases "rest = [] \<and> \<not> follow")
            case True
            then show ?thesis
              using loc False Some SymbolicLink a' by simp
          next
            case nf: False
            then obtain k where k: "n = Suc k"
              using loc False Some SymbolicLink by (cases n) auto
            let ?inner = "locate fs k True (if rooted t then [] else cur) (elements t)"
            obtain p where p: "?inner = Inr p"
              using loc False Some SymbolicLink nf k by (cases ?inner) auto
            show ?thesis
            proof (cases "rest = []")
              case True
              then have "q = p"
                using loc False Some SymbolicLink nf k p by simp
              then have "locate m' k True (if rooted t then [] else cur) (elements t) = Inr q"
                using "2.IH"(3) [OF False Some SymbolicLink nf k _ qS compat none root] p by simp
              then show ?thesis
                using False a' nf k True by simp
            next
              case rne: False
              obtain a where dir: "node_at fs p = Some (Directory a)"
                  and cont: "locate fs n follow p rest = Inr q"
                using loc False Some SymbolicLink nf k p rne
                by (auto split: option.splits node.splits)
              have pS: "p \<notin> A"
              proof
                assume "p \<in> A"
                then have "fs p = None" "p \<noteq> []" using none root by auto
                then show False using dir by (simp add: node_at_def)
              qed
              have i': "locate m' k True (if rooted t then [] else cur) (elements t) = Inr p"
                using "2.IH"(3) [OF False Some SymbolicLink nf k p pS compat none root] .
              have "\<exists>a'. node_at m' p = Some (Directory a')"
              proof (cases "p = []")
                case True
                then show ?thesis by (simp add: node_at_def)
              next
                case False
                then have "fs p = Some (Directory a)" using dir by (simp add: node_at_def)
                moreover have "same_kind (fs p) (m' p)" using compat pS by blast
                ultimately show ?thesis
                  using False same_kind_Directory by (simp add: node_at_def)
              qed
              then obtain a' where dir': "node_at m' p = Some (Directory a')" by blast
              have "locate m' n follow p rest = Inr q"
                using "2.IH"(4) [OF False Some SymbolicLink nf k p rne dir refl cont qS compat none root] .
              then show ?thesis
                using False a' nf k i' rne dir' by simp
            qed
          qed
        qed
      qed
    qed
  qed
qed

lemma handler_regular:
  assumes "Header f = Some hdr"
      and "Typeflag hdr \<in> {TypeReg, TypeRegA, TypeChar, TypeBlock, TypeFifo}"
  shows "handler dir w f = handle_reg w (filepath_Join [dir, NameInArchive f]) f"
  using assms
  by (auto simp: handler_def Let_def TypeReg_def TypeRegA_def TypeChar_def TypeBlock_def
                 TypeFifo_def TypeDir_def)

lemma make_parent_None:
  assumes "make_parent w fpath = (None, w1)"
  shows "calls w1 = calls w @ [CallMkdirAll (filepath_Dir fpath)]" "fault w1 = fault w" "GOOS w1 = GOOS w"
  using assms
  by (auto simp: make_parent_def os_MkdirAll_def Let_def split: option.splits prod.splits if_splits)

lemma stat_put_regular:
  assumes "path \<noteq> []" and "locate fs link_limit True [] (elements path) = Inr p" and "p \<noteq> []"
      and "fs p = None \<or> (\<exists>m bs. fs p = Some (Regular m bs))"
  shows "os_Stat (fs(p \<mapsto> Regular m' bs')) path = Inr (p, Regular m' bs')"
proof -
  have c: "\<forall>x. x \<notin> {} \<longrightarrow> same_kind (fs x) ((fs(p \<mapsto> Regular m' bs')) x)"
    using assms(4)
    by (auto simp: same_kind_def split: option.splits node.splits)
  have "locate (fs(p \<mapsto> Regular m' bs')) link_limit True [] (elements path) = Inr p"
    by (rule locate_stable [OF assms(2) _ c]) simp_all
  then show ?thesis
    using assms(1,3) by (simp add: os_Stat_def stat_at_def node_at_def)
qed

lemma stat_regular_update:
  assumes "os_Stat fs path = Inr (p, Regular m bs)"
  shows "os_Stat (fs(p \<mapsto> Regular m' bs')) path = Inr (p, Regular m' bs')"
proof -
  have ne: "path \<noteq> []"
    using assms by (auto simp: os_Stat_def)
  have l: "locate fs link_limit True [] (elements path) = Inr p" and n: "node_at fs p = Some (Regular m bs)"
    using assms ne by (auto simp: os_Stat_def stat_at_def split: sum.splits option.splits)
  have p: "p \<noteq> []" using n by (auto simp: node_at_def)
  then have "fs p = Some (Regular m bs)" using n by (simp add: node_at_def)
  then show ?thesis
    using stat_put_regular [OF ne l p] by blast
qed

lemma os_Create_Inr:
  assumes "os_Create w fpath = (Inr out, w1)"
  shows "calls w1 = calls w @ [CallCreate fpath]" "fault w1 = fault w" "GOOS w1 = GOOS w"
        "file_name out = fpath"
        "\<exists>m. os_Stat (files w1) fpath = Inr (file_node out, Regular m [])"
proof -
  have f: "fault w (CallCreate fpath) = None" and ne: "fpath \<noteq> []"
    using assms by (auto simp: os_Create_def Let_def split: option.splits if_splits)
  obtain p where p: "locate (files w) link_limit True [] (elements fpath) = Inr p"
    using assms f ne
    by (cases "locate (files w) link_limit True [] (elements fpath)")
       (auto simp: os_Create_def Let_def)
  have k: "node_at (files w) p = None \<or> (\<exists>m bs. node_at (files w) p = Some (Regular m bs))"
    using assms f ne p
    by (auto simp: os_Create_def Let_def split: option.splits node.splits)
  then have pne: "p \<noteq> []" by (auto simp: node_at_def)
  then have k': "files w p = None \<or> (\<exists>m bs. files w p = Some (Regular m bs))"
    using k by (simp add: node_at_def)
  have o: "out = \<lparr>file_name = fpath, file_node = p\<rparr>"
    using assms f ne p by (auto simp: os_Create_def Let_def split: option.splits node.splits)
  obtain m where m: "files w1 = (files w)(p \<mapsto> Regular m [])"
    using assms f ne p
    by (auto simp: os_Create_def Let_def files_def update_conv' split: option.splits node.splits)
  show "calls w1 = calls w @ [CallCreate fpath]" "fault w1 = fault w" "GOOS w1 = GOOS w"
    using assms f ne p by (auto simp: os_Create_def Let_def split: option.splits node.splits)
  show "file_name out = fpath" using o by simp
  show "\<exists>m. os_Stat (files w1) fpath = Inr (file_node out, Regular m [])"
    using stat_put_regular [OF ne p pne k'] m o by auto
qed

lemma File_Chmod_result:
  assumes "File_Chmod w out mode = (r, w1)"
      and "os_Stat (files w) path = Inr (file_node out, Regular m bs)"
  shows "calls w1 = calls w @ [CallChmod (file_name out) mode]" "fault w1 = fault w" "GOOS w1 = GOOS w"
        "r = fault w (CallChmod (file_name out) mode)"
        "os_Stat (files w1) path =
           Inr (file_node out, Regular (if r = None then chmod_bits (GOOS w) mode else m) bs)"
proof -
  have n: "files w (file_node out) = Some (Regular m bs)"
    using assms(2)
    by (auto simp: os_Stat_def stat_at_def node_at_def split: sum.splits option.splits if_splits)
  show "calls w1 = calls w @ [CallChmod (file_name out) mode]" "fault w1 = fault w" "GOOS w1 = GOOS w"
        "r = fault w (CallChmod (file_name out) mode)"
    using assms(1) n by (auto simp: File_Chmod_def Let_def split: option.splits)
  show "os_Stat (files w1) path =
           Inr (file_node out, Regular (if r = None then chmod_bits (GOOS w) mode else m) bs)"
  proof (cases "fault w (CallChmod (file_name out) mode)")
    case None
    then have "r = None" "files w1 = (files w)(file_node out \<mapsto> Regular (chmod_bits (GOOS w) mode) bs)"
      using assms(1) n by (auto simp: File_Chmod_def Let_def files_def update_conv')
    then show ?thesis
      using stat_regular_update [OF assms(2)] by simp
  next
    case (Some e)
    then have "r = Some e" "files w1 = files w"
      using assms(1) by (auto simp: File_Chmod_def Let_def files_def)
    then show ?thesis using assms(2) by simp
  qed
qed

lemma copy_content_None:
  assumes "copy_content w fpath out f = (None, w1)"
      and "os_Stat (files w) path = Inr (file_node out, Regular m bs)"
  shows "calls w1 = calls w @ [CallOpen (NameInArchive f), CallCopy (file_name out), CallClose (file_name out)]"
        "\<exists>bytes. Open f = Inr bytes \<and> os_Stat (files w1) path = Inr (file_node out, Regular m (bs @ bytes))"
proof -
  have n: "files w (file_node out) = Some (Regular m bs)"
    using assms(2)
    by (auto simp: os_Stat_def stat_at_def node_at_def split: sum.splits option.splits if_splits)
  obtain bytes where b: "Open f = Inr bytes"
    using assms(1) by (cases "Open f") (auto simp: copy_content_def File_Open_def)
  have c: "fault w (CallCopy (file_name out)) = None"
    using assms(1) b
    by (auto simp: copy_content_def File_Open_def io_Copy_def Let_def split: option.splits)
  have w1: "calls w1 = calls w @ [CallOpen (NameInArchive f), CallCopy (file_name out), CallClose (file_name out)]"
           "files w1 = (files w)(file_node out \<mapsto> Regular m (bs @ bytes))"
    using assms(1) b c n
    by (auto simp: copy_content_def File_Open_def io_Copy_def File_Close_def Let_def files_def
                   update_conv' record_call_def)
  show "calls w1 = calls w @ [CallOpen (NameInArchive f), CallCopy (file_name out), CallClose (file_name out)]"
    using w1(1) .
  show "\<exists>bytes. Open f = Inr bytes \<and> os_Stat (files w1) path = Inr (file_node out, Regular m (bs @ bytes))"
    using b w1(2) stat_regular_update [OF assms(2)] by simp
qed

text \<open>
  C5, amended. A regular-type entry that is extracted without failure has been handled
  by these calls in this order: make the parent directories, create the file, change
  its mode to the recorded one, open the entry, copy its content, close the file. The
  path of the entry then names, through any symbolic links, a regular file that holds
  exactly the bytes of the entry. When the mode change succeeded its permission bits are
  those that the change applies, off windows the nine permission bits of the recorded
  mode; a failed mode change is passed over on windows only, elsewhere the entry
  fails.
\<close>

theorem regular_file_extraction_order:
  assumes "Header f = Some hdr"
      and "Typeflag hdr \<in> {TypeReg, TypeRegA, TypeChar, TypeBlock, TypeFifo}"
      and "handler dir w f = (None, w')"
  shows "calls w' = calls w @
           [CallMkdirAll (filepath_Dir (filepath_Join [dir, NameInArchive f])),
            CallCreate (filepath_Join [dir, NameInArchive f]),
            CallChmod (filepath_Join [dir, NameInArchive f]) (Mode f),
            CallOpen (NameInArchive f),
            CallCopy (filepath_Join [dir, NameInArchive f]),
            CallClose (filepath_Join [dir, NameInArchive f])]
         \<and> (\<exists>p m bytes. Open f = Inr bytes
               \<and> os_Stat (files w') (filepath_Join [dir, NameInArchive f]) = Inr (p, Regular m bytes)
               \<and> (fault w (CallChmod (filepath_Join [dir, NameInArchive f]) (Mode f)) = None
                     \<longrightarrow> m = chmod_bits (GOOS w) (Mode f))
               \<and> (fault w (CallChmod (filepath_Join [dir, NameInArchive f]) (Mode f)) \<noteq> None
                     \<longrightarrow> GOOS w = ''windows''))"
proof -
  let ?p = "filepath_Join [dir, NameInArchive f]"
  have h: "handle_reg w ?p f = (None, w')"
    using handler_regular [OF assms(1,2)] assms(3) by simp
  obtain e1 w1 where mp: "make_parent w ?p = (e1, w1)" by (cases "make_parent w ?p")
  have e1: "e1 = None"
    using h mp by (cases e1) (simp_all add: handle_reg_def)
  note p1 = make_parent_None [OF mp [unfolded e1]]
  obtain e2 w2 where cr: "os_Create w1 ?p = (e2, w2)" by (cases "os_Create w1 ?p")
  obtain out where e2: "e2 = Inr out"
    using h mp cr e1 by (cases e2) (simp_all add: handle_reg_def)
  note p2 = os_Create_Inr [OF cr [unfolded e2]]
  from p2(5) obtain m0 where m0: "os_Stat (files w2) ?p = Inr (file_node out, Regular m0 [])" by blast
  obtain e3 w3 where ch: "File_Chmod w2 out (Mode f) = (e3, w3)" by (cases "File_Chmod w2 out (Mode f)")
  note p3 = File_Chmod_result [OF ch m0]
  have cc: "copy_content w3 ?p out f = (None, w') \<and> (e3 \<noteq> None \<longrightarrow> GOOS w3 = ''windows'')"
    using h mp cr ch e1 e2 by (cases e3) (auto simp: handle_reg_def split: if_splits)
  note p4 = copy_content_None [OF conjunct1 [OF cc] p3(5)]
  have c: "calls w' = calls w @
           [CallMkdirAll (filepath_Dir ?p), CallCreate ?p, CallChmod ?p (Mode f),
            CallOpen (NameInArchive f), CallCopy ?p, CallClose ?p]"
    using p1(1) p2(1,4) p3(1) p4(1) by simp
  have f3: "e3 = fault w (CallChmod ?p (Mode f))"
    using p3(4) p2(2,4) p1(2) by simp
  have g2: "GOOS w2 = GOOS w"
    using p2(3) p1(3) by simp
  have g3: "GOOS w3 = GOOS w"
    using p3(3) g2 by simp
  from p4(2) obtain bytes where b: "Open f = Inr bytes"
      "os_Stat (files w') ?p =
         Inr (file_node out, Regular (if e3 = None then chmod_bits (GOOS w2) (Mode f) else m0) bytes)"
    by auto
  have "\<exists>p m bytes. Open f = Inr bytes
               \<and> os_Stat (files w') ?p = Inr (p, Regular m bytes)
               \<and> (fault w (CallChmod ?p (Mode f)) = None \<longrightarrow> m = chmod_bits (GOOS w) (Mode f))
               \<and> (fault w (CallChmod ?p (Mode f)) \<noteq> None \<longrightarrow> GOOS w = ''windows'')"
    (is "\<exists>p m bytes. ?P p m bytes")
  proof (intro exI)
    show "?P (file_node out) (if e3 = None then chmod_bits (GOOS w2) (Mode f) else m0) bytes"
      using b cc f3 g2 g3 by simp
  qed
  then show ?thesis
    using c by simp
qed

theorem regular_file_extraction_order_witness:
  "handler ''/out'' quiet_world entry_a = (None, snd (handler ''/out'' quiet_world entry_a))
   \<and> calls (snd (handler ''/out'' quiet_world entry_a)) = calls quiet_world @
           [CallMkdirAll (filepath_Dir (filepath_Join [''/out'', NameInArchive entry_a])),
            CallCreate (filepath_Join [''/out'', NameInArchive entry_a]),
            CallChmod (filepath_Join [''/out'', NameInArchive entry_a]) (Mode entry_a),
            CallOpen (NameInArchive entry_a),
            CallCopy (filepath_Join [''/out'', NameInArchive entry_a]),
            CallClose (filepath_Join [''/out'', NameInArchive entry_a])]
   \<and> os_Stat (files (snd (handler ''/out'' quiet_world entry_a))) ''/out/a'' =
       Inr ([''out'', ''a''], Regular 420 [1, 2, 3])
   \<and> files (snd (handler ''/out'' quiet_world entry_script)) [''out'', ''run.sh''] =
       Some (Regular 493 [35, 33])
   \<and> files (snd (handler ''/out'' quiet_world entry_fifo)) [''out'', ''p''] = Some (Regular 420 [])
   \<and> fst (handler ''/out'' linked_world entry_a) = None
   \<and> files (snd (handler ''/out'' linked_world entry_a)) [''out'', ''a''] =
       Some (SymbolicLink ''/elsewhere'')
   \<and> files (snd (handler ''/out'' linked_world entry_a)) [''elsewhere''] =
       Some (Regular 420 [1, 2, 3])
   \<and> os_Stat (files (snd (handler ''/out'' linked_world entry_a))) ''/out/a'' =
       Inr ([''elsewhere''], Regular 420 [1, 2, 3])
   \<and> fst (handler ''/out'' windows_world entry_script) = None
   \<and> calls (snd (handler ''/out'' windows_world entry_script)) =
       [CallMkdirAll ''/out'', CallCreate ''/out/run.sh'', CallChmod ''/out/run.sh'' 493,
        CallOpen ''run.sh'', CallCopy ''/out/run.sh'', CallClose ''/out/run.sh'']
   \<and> files (snd (handler ''/out'' windows_world entry_script)) [''out'', ''run.sh''] =
       Some (Regular 438 [35, 33])"
proof -
  have h: "Header entry_a = Some \<lparr>Typeflag = TypeReg, Name = ''a'', Linkname = []\<rparr>"
    by (simp add: entry_a_def)
  have t: "Typeflag \<lparr>Typeflag = TypeReg, Name = ''a'', Linkname = []\<rparr>
             \<in> {TypeReg, TypeRegA, TypeChar, TypeBlock, TypeFifo}"
    by simp
  have "fst (handler ''/out'' quiet_world entry_a) = None"
    by (simp add: fs_defs quiet_world_def entry_a_def)
  then have r: "handler ''/out'' quiet_world entry_a = (None, snd (handler ''/out'' quiet_world entry_a))"
    by (metis prod.collapse)
  have a: "os_Stat (files (snd (handler ''/out'' quiet_world entry_a))) ''/out/a'' =
             Inr ([''out'', ''a''], Regular 420 [1, 2, 3])"
    by (simp add: fs_defs quiet_world_def entry_a_def)
  have s: "files (snd (handler ''/out'' quiet_world entry_script)) [''out'', ''run.sh''] =
             Some (Regular 493 [35, 33])"
    by (simp add: fs_defs quiet_world_def entry_script_def)
  have p: "files (snd (handler ''/out'' quiet_world entry_fifo)) [''out'', ''p''] = Some (Regular 420 [])"
    by (simp add: fs_defs quiet_world_def entry_fifo_def)
  have l: "fst (handler ''/out'' linked_world entry_a) = None"
          "files (snd (handler ''/out'' linked_world entry_a)) [''out'', ''a''] =
             Some (SymbolicLink ''/elsewhere'')"
          "files (snd (handler ''/out'' linked_world entry_a)) [''elsewhere''] =
             Some (Regular 420 [1, 2, 3])"
          "os_Stat (files (snd (handler ''/out'' linked_world entry_a))) ''/out/a'' =
             Inr ([''elsewhere''], Regular 420 [1, 2, 3])"
    by (simp_all add: fs_defs linked_world_def quiet_world_def entry_a_def)
  have w: "fst (handler ''/out'' windows_world entry_script) = None"
          "calls (snd (handler ''/out'' windows_world entry_script)) =
             [CallMkdirAll ''/out'', CallCreate ''/out/run.sh'', CallChmod ''/out/run.sh'' 493,
              CallOpen ''run.sh'', CallCopy ''/out/run.sh'', CallClose ''/out/run.sh'']"
          "files (snd (handler ''/out'' windows_world entry_script)) [''out'', ''run.sh''] =
             Some (Regular 438 [35, 33])"
    by (simp_all add: fs_defs windows_world_def chmod_fails_world_def quiet_world_def
                      entry_script_def)
  from regular_file_extraction_order [OF h t r] r a s p l w show ?thesis
    by blast
qed

text \<open>
  Directories are made through symbolic links: \<open>/out/x\<close> is made in \<open>/real\<close>,
  an entry extracted to \<open>/out\<close> lands there too, and a link to nothing stands in
  the way of a directory of its name.
\<close>

lemma MkdirAll_follows_links:
  "fst (os_MkdirAll detour_world ''/out/x'' 493) = None
   \<and> files (snd (os_MkdirAll detour_world ''/out/x'' 493)) [''real'', ''x''] = Some (Directory 493)
   \<and> files (snd (os_MkdirAll detour_world ''/out/x'' 493)) [''out''] = Some (SymbolicLink ''/real'')
   \<and> files (snd (handler ''/out'' detour_world entry_a)) [''real'', ''a''] = Some (Regular 420 [1, 2, 3])
   \<and> fst (os_MkdirAll detour_world ''/gone'' 493) = Some (Errno ''EEXIST'')"
  by (simp add: fs_defs detour_world_def quiet_world_def entry_a_def)

section \<open>Paths: how joined and parent paths resolve\<close>

lemma Split_not_Nil: "strings_Split s \<noteq> []"
  by (induction s) (auto split: list.splits)


lemma Split_no_slash: "e \<in> set (strings_Split s) \<Longrightarrow> CHR ''/'' \<notin> set e"
proof (induction s arbitrary: e)
  case Nil
  then show ?case by simp
next
  case (Cons c s)
  then show ?case
    by (cases "strings_Split s") (auto split: if_splits)
qed



lemma Join_Split: "strings_Join (strings_Split s) = s"
proof (induction s)
  case Nil
  then show ?case by simp
next
  case (Cons c s)
  show ?case
  proof (cases "strings_Split s")
    case Nil
    then show ?thesis using Split_not_Nil by blast
  next
    case (Cons e es)
    then show ?thesis
      using Cons.IH by (cases es) auto
  qed
qed


lemma clean_elems_skip: "e = [] \<or> e = ''.'' \<Longrightarrow> clean_elems r out (e # es) = clean_elems r out es"
  by auto

lemma clean_elems_push: "proper e \<Longrightarrow> clean_elems r out (e # es) = clean_elems r (e # out) es"
  by (simp add: proper_def)

lemma clean_elems_dotdot:
  "clean_elems r out (''..'' # es) =
     (case out of
        [] \<Rightarrow> if r then clean_elems r out es else clean_elems r (''..'' # out) es
      | prev # below \<Rightarrow>
          if prev = ''..'' then clean_elems r (''..'' # out) es
          else clean_elems r below es)"
  by simp

declare clean_elems.simps(2) [simp del]

lemma elem_cases: "e = [] \<or> e = ''.'' \<or> e = ''..'' \<or> proper e"
  by (auto simp: proper_def)

lemma clean_elems_subset:
  "e \<in> set (clean_elems r out xs) \<Longrightarrow> e \<in> set out \<or> (e \<in> set xs \<and> e \<noteq> [] \<and> e \<noteq> ''.'')"
proof (induction xs arbitrary: out)
  case Nil
  then show ?case by simp
next
  case (Cons x xs)
  consider "x = [] \<or> x = ''.''" | "x = ''..''" | "proper x"
    using elem_cases by blast
  then show ?case
  proof cases
    case 1
    then have "e \<in> set (clean_elems r out xs)"
      using Cons.prems by (simp add: clean_elems_skip [OF 1])
    from Cons.IH [OF this] show ?thesis by auto
  next
    case 2
    have x: "x \<noteq> []" "x \<noteq> ''.''" using 2 by simp_all
    show ?thesis
    proof (cases out)
      case Nil
      then have "e \<in> set (clean_elems r [] xs) \<or> e \<in> set (clean_elems r [x] xs)"
        using Cons.prems 2 by (simp only: clean_elems_dotdot list.case split: if_splits) simp_all
      then show ?thesis
        using Cons.IH [of "[]"] Cons.IH [of "[x]"] x Nil by auto
    next
      case (Cons prev below)
      then have "e \<in> set (clean_elems r (x # out) xs) \<or> e \<in> set (clean_elems r below xs)"
        using Cons.prems 2 by (simp only: clean_elems_dotdot list.case split: if_splits) simp_all
      then show ?thesis
        using Cons.IH [of "x # out"] Cons.IH [of below] x Cons by auto
    qed
  next
    case 3
    then have "e \<in> set (clean_elems r (x # out) xs)"
      using Cons.prems by (simp add: clean_elems_push [OF 3])
    from Cons.IH [OF this] show ?thesis
      using 3 by (auto simp: proper_def)
  qed
qed


lemma dotdot_not_proper [simp]: "\<not> proper ''..''" "\<not> proper ''.''" "\<not> proper []"
  by (simp_all add: proper_def)



lemma clean_elems_rooted_no_dotdot:
  "''..'' \<notin> set out \<Longrightarrow> ''..'' \<notin> set (clean_elems True out xs)"
proof (induction xs arbitrary: out)
  case Nil
  then show ?case by simp
next
  case (Cons x xs)
  consider "x = [] \<or> x = ''.''" | "x = ''..''" | "proper x"
    using elem_cases by blast
  then show ?case
  proof cases
    case 1
    then show ?thesis
      using Cons.IH [OF Cons.prems] by (simp add: clean_elems_skip [OF 1])
  next
    case 2
    show ?thesis
    proof (cases out)
      case Nil
      then show ?thesis
        unfolding 2 clean_elems_dotdot using Cons.IH [of "[]"] by simp
    next
      case (Cons prev below)
      then have "prev \<noteq> ''..''" "''..'' \<notin> set below"
        using Cons.prems by auto
      then show ?thesis
        unfolding 2 clean_elems_dotdot using Cons.IH [of below] Cons by simp
    qed
  next
    case 3
    then have "''..'' \<notin> set (x # out)"
      using Cons.prems by auto
    from Cons.IH [OF this] show ?thesis
      by (simp add: clean_elems_push [OF 3])
  qed
qed




lemma clean_elems_rooted_proper:
  "e \<in> set (clean_elems True [] xs) \<Longrightarrow> proper e"
  using clean_elems_subset [of e True "[]" xs] clean_elems_rooted_no_dotdot [of "[]" xs]
  by (auto simp: proper_def)

lemma resolve_proper: "e \<in> set (resolve p) \<Longrightarrow> proper e \<and> CHR ''/'' \<notin> set e"
  using clean_elems_subset [of e True "[]" "strings_Split p"]
        clean_elems_rooted_proper [of e "strings_Split p"] Split_no_slash [of e p]
  by (auto simp: resolve_def)




























section \<open>Round trip: how paths resolve during extraction\<close>








lemma grown_refl: "grown D fs fs"
  by (simp add: grown_def)



section \<open>Round trip: making directories\<close>




section \<open>Round trip: the file system during extraction\<close>


lemma restored_not_directory:
  "restored_as k f (Directory m) \<Longrightarrow> is_directory f"
  by (auto simp: restored_as_def is_directory_def split: option.splits)























section \<open>Round trip: the names the walk gives\<close>














section \<open>Round trip: the entries of the walk\<close>














section \<open>Round trip\<close>






text \<open>
  The walk on other inputs: a directory given with a trailing separator is stored
  without its own name, and a directory that does not exist gives an empty archive.
\<close>

lemma walk_examples:
  "map NameInArchive (FilesFromDisk (disk tree_world) ''/src/'') = [''l'', ''sub'', ''sub/a'']
   \<and> FilesFromDisk (disk tree_world) ''/nope'' = []
   \<and> fst (Save tree_world (Some \<lparr>SaveRequest.Bucket = ''b'', Key = ''k'', Dir = ''/nope''\<rparr>)) = None"
  by (simp add: fs_defs Save_defs tree_world_def quiet_world_def FilesFromDisk_def walk_def
                entries_below_def disk_File_def nameOnDiskToNameInArchive_def filepath_Base_def
                strings_TrimPrefix_def clean_elems.simps suffix_def)



end
